theory Spec2Isabelle
  imports Complex_Main "HOL-Library.Finite_Map" "HOL-Library.Word"
    "HOL-Library.List_Lexorder" "HOL-Library.Char_ord"
begin

section \<open>Data model of the tunnel community\<close>

text \<open>
  Byte strings (Python \<open>bytes\<close>) are lists of 8-bit characters. Circuit identifiers are
  32-bit. Python dictionaries are finite maps; \<open>len(d)\<close> is the number of keys.
\<close>

type_synonym bytes = string

type_synonym circuit_id = "32 word"

definition dict_len :: "('k, 'v) fmap \<Rightarrow> int" where
  "dict_len d = int (fcard (fmdom d))"

text \<open>
  Every call of \<open>self.logger\<close> in \<open>tribler/core/tunnel/community.py\<close> appends one
  record to the log; each constructor stands for one message of the source.
\<close>

datatype log_record =
    Warning_too_many_relays int
  | Warning_unexpected_http_request
  | Warning_too_many_http_requests
  | Debug_got_http_request
  | Debug_opening_tcp_connection
  | Warning_http_request_failed
  | Warning_http_request_timed_out
  | Warning_http_request_not_allowed
  | Info_writing_exit_nodes
  | Warning_os_error
  | Debug_loading_exit_nodes
  | Warning_cache_file_does_not_exist
  | Info_create_introducing_circuit bytes
  | Error_polling_download_manager

subsection \<open>The community\<close>

text \<open>
  Modelled from the spec: the enumeration \<open>DownloadStatus\<close> (its module
  \<open>download_state.py\<close> is not among the sources). The members named by the sources and
  the specification are constructors; every other member is \<open>OTHER_STATUS\<close>.
\<close>

datatype DownloadStatus =
    DOWNLOADING
  | SEEDING
  | STOPPED
  | METADATA
  | CIRCUITS
  | EXIT_NODES
  | OTHER_STATUS nat

text \<open>
  A circuit of the IPv8 library, with the two attributes the community reads: its type
  and the infohash it serves (\<open>None\<close> for a plain data circuit).
\<close>

datatype circuit_type =
    CIRCUIT_TYPE_DATA
  | CIRCUIT_TYPE_IP_SEEDER
  | CIRCUIT_TYPE_RP_SEEDER
  | CIRCUIT_TYPE_RP_DOWNLOADER
  | CIRCUIT_TYPE_OTHER string

record circuit =
  ctype :: circuit_type
  circuit_info_hash :: "bytes option"

text \<open>
  An entry of the request cache: an \<open>HTTPRequestCache\<close> remembers the circuit its
  request went out on; entries of every other class are \<open>OtherCache\<close>.
\<close>

datatype request_cache_entry = HTTPRequestCache circuit_id | OtherCache

text \<open>
  The attributes of \<open>TriblerTunnelCommunity\<close> that the modelled methods read or write:
  the circuits this node initiated, the relays and exit sockets it serves for others
  (their entries belong to the IPv8 library and stay abstract), the request cache's
  dictionary \<open>_identifiers\<close>, the download monitor's dictionaries, the settings, and the
  logger.
\<close>

record ('r, 'e) community =
  circuits :: "(circuit_id, circuit) fmap"
  relay_from_to :: "(circuit_id, 'r) fmap"
  exit_sockets :: "(circuit_id, 'e) fmap"
  request_cache :: "(string, request_cache_entry) fmap"
  download_states :: "(bytes, DownloadStatus) fmap"
  last_forced_announce :: "(bytes, real) fmap"
  circuits_needed :: "(int, int) fmap"
  max_joined_circuits :: int
  min_circuits :: int
  max_circuits :: int
  default_hops :: int
  logger :: "log_record list"

text \<open>
  The community as \<open>__init__\<close> leaves it: every dictionary empty, the settings as given.
\<close>

definition new_community :: "int \<Rightarrow> int \<Rightarrow> int \<Rightarrow> int \<Rightarrow> ('r, 'e) community" where
  "new_community max_joined min_c max_c hops0 =
     \<lparr>circuits = fmempty, relay_from_to = fmempty, exit_sockets = fmempty,
      request_cache = fmempty, download_states = fmempty, last_forced_announce = fmempty,
      circuits_needed = fmempty, max_joined_circuits = max_joined, min_circuits = min_c,
      max_circuits = max_c, default_hops = hops0, logger = []\<rparr>"

subsection \<open>Join-circuit admission\<close>

text \<open>
  \<open>should_join_circuit\<close> returns a future that is already resolved (\<open>succeed(v)\<close>); the
  model returns the value the future fires with, and the community after the call.
\<close>

definition should_join_circuit ::
  "('r, 'e) community \<Rightarrow> 'p \<Rightarrow> 'a \<Rightarrow> bool \<times> ('r, 'e) community" where
  "should_join_circuit self create_payload previous_node_address =
     (let joined_circuits = dict_len (relay_from_to self) + dict_len (exit_sockets self)
      in if max_joined_circuits self \<le> joined_circuits
         then (False, self\<lparr>logger := logger self @ [Warning_too_many_relays joined_circuits]\<rparr>)
         else (True, self))"

subsection \<open>Available discovery strategies\<close>

text \<open>
  A Python expression evaluates to an object; \<open>dict.update\<close> mutates its receiver and
  returns \<open>None\<close>. \<open>dict_update\<close> gives the returned object and the receiver afterwards.
\<close>

datatype strategy_class = GoldenRatioStrategy | LibraryStrategy string

datatype ('k, 'v) py_object = PyNone | PyDict "('k, 'v) fmap"

definition dict_update ::
  "('k, 'v) fmap \<Rightarrow> ('k, 'v) fmap \<Rightarrow> ('k, 'v) py_object \<times> ('k, 'v) fmap" where
  "dict_update d other = (PyNone, d ++\<^sub>f other)"

text \<open>
  \<open>super().get_available_strategies()\<close> is the IPv8 library's dictionary of strategies,
  taken as the argument.
\<close>

definition get_available_strategies ::
  "(string, strategy_class) fmap \<Rightarrow> (string, strategy_class) py_object" where
  "get_available_strategies super_strategies =
     fst (dict_update super_strategies
            (fmap_of_list [(''GoldenRatioStrategy'', GoldenRatioStrategy)]))"

subsection \<open>Lookup infohash of a hidden swarm\<close>

text \<open>
  \<open>binascii.hexlify\<close> writes every byte as two lowercase hexadecimal digits, the high
  nibble first, each digit read from the table \<open>0123456789abcdef\<close>.
\<close>

definition hex_digit :: "nat \<Rightarrow> char" where
  "hex_digit n = ''0123456789abcdef'' ! n"

definition hexlify :: "bytes \<Rightarrow> bytes" where
  "hexlify data =
     concat (map (\<lambda>c. [hex_digit (drop_bit 4 (of_char c :: nat)),
                         hex_digit (take_bit 4 (of_char c :: nat))]) data)"

text \<open>
  \<open>hashlib.sha1(m).digest()\<close> is the standard library's; the digest function is the
  argument \<open>sha1\<close>.
\<close>

definition get_lookup_info_hash :: "(bytes \<Rightarrow> bytes) \<Rightarrow> bytes \<Rightarrow> bytes" where
  "get_lookup_info_hash sha1 info_hash =
     sha1 (''tribler anonymous download'' @ hexlify info_hash)"

text \<open>
  The specification's side, written from its words: the hexadecimal encoding of a byte
  string gives, for each byte \<open>b\<close>, the digit of \<open>b div 16\<close> and then the digit of
  \<open>b mod 16\<close>, where the digits below ten are \<open>0\<close> to \<open>9\<close> and the others \<open>a\<close> to \<open>f\<close>.
\<close>

definition spec_hex_char :: "nat \<Rightarrow> char" where
  "spec_hex_char d =
     (if d < 10 then char_of (of_char CHR ''0'' + d)
      else char_of (of_char CHR ''a'' + (d - 10)))"

fun spec_hex :: "bytes \<Rightarrow> bytes" where
  "spec_hex [] = []"
| "spec_hex (c # cs) =
     spec_hex_char (of_char c div 16) # spec_hex_char (of_char c mod 16) # spec_hex cs"

subsection \<open>HTTP requests at the exit node\<close>

text \<open>
  Helpers for byte strings: \<open>x.startswith(p)\<close>, the index of the first occurrence of a
  separator, \<open>x.partition(sep)\<close> (the part before the first occurrence, the separator,
  the part after; the whole string and two empty strings when there is none), and the
  slice \<open>x[a:b]\<close> for \<open>0 \<le> a\<close>.
\<close>

definition startswith :: "bytes \<Rightarrow> bytes \<Rightarrow> bool" where
  "startswith x p = (take (length p) x = p)"

fun bytes_find :: "bytes \<Rightarrow> bytes \<Rightarrow> nat option" where
  "bytes_find sep [] = (if sep = [] then Some 0 else None)"
| "bytes_find sep (c # cs) =
     (if startswith (c # cs) sep then Some 0 else map_option Suc (bytes_find sep cs))"

definition bytes_partition :: "bytes \<Rightarrow> bytes \<Rightarrow> bytes \<times> bytes \<times> bytes" where
  "bytes_partition x sep =
     (case bytes_find sep x of
        None \<Rightarrow> (x, [], [])
      | Some i \<Rightarrow> (take i x, sep, drop (i + length sep) x))"

definition slice :: "bytes \<Rightarrow> nat \<Rightarrow> nat \<Rightarrow> bytes" where
  "slice x a b = take (b - a) (drop a x)"

definition CRLF_CRLF :: bytes where
  "CRLF_CRLF = [CHR 0x0D, CHR 0x0A, CHR 0x0D, CHR 0x0A]"

definition MAX_HTTP_PACKET_SIZE :: nat where
  "MAX_HTTP_PACKET_SIZE = 1400"

text \<open>
  \<open>is_bencoded(x)\<close> is \<open>bdecode(x) is not None\<close>, with libtorrent's \<open>bdecode\<close> as the
  argument.
\<close>

definition is_bencoded :: "(bytes \<Rightarrow> 'b option) \<Rightarrow> bytes \<Rightarrow> bool" where
  "is_bencoded bdecode x = (bdecode x \<noteq> None)"

type_synonym address = "string \<times> int"

record http_request_payload =
  req_circuit_id :: circuit_id
  req_identifier :: int
  req_target :: address
  req_request :: bytes

record http_response_payload =
  rsp_circuit_id :: circuit_id
  rsp_identifier :: int
  rsp_part :: int
  rsp_total :: int
  rsp_response :: bytes

text \<open>
  What the \<open>try\<close> block of \<open>on_http_request\<close> ends with: \<open>OSError\<close>, the timeout of ten
  seconds, or the bytes accumulated in \<open>response\<close> (the header lines and the body).
\<close>

datatype fetch_result = Raised_OSError | Raised_TimeoutError | Fetched bytes

definition log_msg :: "log_record \<Rightarrow> ('r, 'e) community \<Rightarrow> ('r, 'e) community" where
  "log_msg m self = self\<lparr>logger := logger self @ [m]\<rparr>"

text \<open>
  The number of values of a dictionary that satisfy a predicate: the length of the list
  comprehension over \<open>d.values()\<close>.
\<close>

definition dict_count :: "('v \<Rightarrow> bool) \<Rightarrow> ('k, 'v) fmap \<Rightarrow> int" where
  "dict_count P d =
     int (fcard (fmdom (fmfilter
       (\<lambda>k. case fmlookup d k of Some v \<Rightarrow> P v | None \<Rightarrow> False) d)))"

definition outstanding_http_requests :: "('r, 'e) community \<Rightarrow> circuit_id \<Rightarrow> int" where
  "outstanding_http_requests self cid =
     dict_count (\<lambda>cache. case cache of HTTPRequestCache c \<Rightarrow> c = cid | OtherCache \<Rightarrow> False)
       (request_cache self)"

text \<open>
  \<open>num_cells = math.ceil(len(response) / MAX_HTTP_PACKET_SIZE)\<close>: the quotient is a
  true division, taken here over the reals.
\<close>

definition num_cells_of :: "bytes \<Rightarrow> int" where
  "num_cells_of response = \<lceil>real (length response) / real MAX_HTTP_PACKET_SIZE\<rceil>"

text \<open>
  The sending loop: for \<open>i\<close> in \<open>range(num_cells)\<close>, one cell to \<open>source_address\<close> with the
  payload \<open>HTTPResponsePayload(circuit_id, identifier, i, num_cells, response[i*M:(i+1)*M])\<close>.
\<close>

definition response_cells ::
  "address \<Rightarrow> circuit_id \<Rightarrow> int \<Rightarrow> bytes \<Rightarrow> (address \<times> http_response_payload) list" where
  "response_cells source_address cid identifier response =
     map (\<lambda>i. (source_address,
                \<lparr>rsp_circuit_id = cid, rsp_identifier = identifier, rsp_part = int i,
                 rsp_total = num_cells_of response,
                 rsp_response = slice response (i * MAX_HTTP_PACKET_SIZE)
                                  ((i + 1) * MAX_HTTP_PACKET_SIZE)\<rparr>))
       [0..<nat (num_cells_of response)]"

text \<open>
  \<open>on_http_request\<close>, after \<open>unpack_cell\<close> has decoded the payload. \<open>fetch\<close> is the TCP
  exchange with the target. The result is the community afterwards and the cells sent.
\<close>

definition on_http_request ::
  "(address \<Rightarrow> bytes \<Rightarrow> fetch_result) \<Rightarrow> (bytes \<Rightarrow> 'b option) \<Rightarrow> ('r, 'e) community \<Rightarrow>
   address \<Rightarrow> http_request_payload \<Rightarrow> circuit_id \<Rightarrow>
   ('r, 'e) community \<times> (address \<times> http_response_payload) list" where
  "on_http_request fetch bdecode self source_address payload cid =
     (if cid |\<notin>| fmdom (exit_sockets self)
      then (log_msg Warning_unexpected_http_request self, [])
      else if outstanding_http_requests self cid > 5
      then (log_msg Warning_too_many_http_requests self, [])
      else
        let self1 = log_msg Debug_opening_tcp_connection (log_msg Debug_got_http_request self)
        in case fetch (req_target payload) (req_request payload) of
             Raised_OSError \<Rightarrow> (log_msg Warning_http_request_failed self1, [])
           | Raised_TimeoutError \<Rightarrow> (log_msg Warning_http_request_timed_out self1, [])
           | Fetched response \<Rightarrow>
               if \<not> startswith response ''HTTP/1.1 307''
                  \<and> \<not> is_bencoded bdecode (snd (snd (bytes_partition response CRLF_CRLF)))
               then (log_msg Warning_http_request_not_allowed self1, [])
               else (self1, response_cells source_address cid (req_identifier payload) response))"

subsection \<open>Example inputs\<close>

text \<open>
  An exit node with one exit socket, for circuit 1, and the given request-cache entries;
  a request for a tracker; a redirect of 3000 bytes.
\<close>

definition exit_node_with ::
  "(string \<times> request_cache_entry) list \<Rightarrow> (unit, unit) community" where
  "exit_node_with caches =
     (new_community 100 1 8 1)\<lparr>exit_sockets := fmap_of_list [(1, ())],
                               request_cache := fmap_of_list caches\<rparr>"

definition tracker_request :: http_request_payload where
  "tracker_request = \<lparr>req_circuit_id = 1, req_identifier = 42,
     req_target = (''tracker.example'', 80), req_request = ''GET /announce HTTP/1.1''\<rparr>"

definition redirect_3000 :: bytes where
  "redirect_3000 = ''HTTP/1.1 307'' @ replicate 2988 (CHR ''x'')"

text \<open>A page that is neither a redirect nor bencoded.\<close>

definition plain_page :: bytes where
  "plain_page = ''HTTP/1.1 200 OK'' @ CRLF_CRLF @ ''<html>hello</html>''"

text \<open>A stand-in for libtorrent's decoder that accepts exactly the dictionaries \<open>d...e\<close>.\<close>

definition bdecode_dictionaries :: "bytes \<Rightarrow> bytes option" where
  "bdecode_dictionaries x =
     (if x \<noteq> [] \<and> hd x = CHR ''d'' \<and> last x = CHR ''e'' then Some x else None)"

subsection \<open>The exit-node cache file\<close>

text \<open>
  Exceptions of the modelled methods are values. A method that can raise returns the
  exception, or \<open>None\<close> when it returns normally, with the community afterwards and what it
  sent or wrote.
\<close>

datatype py_error = OSError | KeyError

text \<open>
  The file at \<open>settings.exitnode_cache\<close>: absent (\<open>is_file()\<close> is false), a regular file
  that cannot be opened or read (\<open>open\<close> or \<open>read\<close> raises \<open>OSError\<close>), or a regular file
  with its content.
\<close>

datatype cache_file = Absent | Unreadable | Regular bytes

text \<open>
  \<open>restore_exitnodes_from_disk\<close>. \<open>walkable\<close> stands for the IPv8 library's
  \<open>Network.load_snapshot\<close> followed by \<open>get_walkable_addresses\<close>. The third component
  lists the addresses an introduction request was sent to.
\<close>

definition restore_exitnodes_from_disk ::
  "(bytes \<Rightarrow> address list) \<Rightarrow> cache_file \<Rightarrow> ('r, 'e) community \<Rightarrow>
   py_error option \<times> ('r, 'e) community \<times> address list" where
  "restore_exitnodes_from_disk walkable exitnode_cache self =
     (case exitnode_cache of
        Absent \<Rightarrow> (None, log_msg Warning_cache_file_does_not_exist self, [])
      | Unreadable \<Rightarrow> (Some OSError, log_msg Debug_loading_exit_nodes self, [])
      | Regular content \<Rightarrow> (None, log_msg Debug_loading_exit_nodes self, walkable content))"

text \<open>
  \<open>cache_exitnodes_to_disk\<close>. \<open>snapshot\<close> stands for the IPv8 library's
  \<open>Network.snapshot\<close> of the candidates with the flag \<open>PEER_FLAG_EXIT_BT\<close>;
  \<open>write_fails\<close> says whether \<open>write_bytes\<close> raises \<open>OSError\<close>. The third component is the
  file afterwards.
\<close>

definition cache_exitnodes_to_disk ::
  "('p list \<Rightarrow> bytes) \<Rightarrow> 'p list \<Rightarrow> bool \<Rightarrow> cache_file \<Rightarrow> ('r, 'e) community \<Rightarrow>
   py_error option \<times> ('r, 'e) community \<times> cache_file" where
  "cache_exitnodes_to_disk snapshot exit_candidates write_fails exitnode_cache self =
     (let self1 = log_msg Info_writing_exit_nodes self
      in if write_fails
         then (None, log_msg Warning_os_error self1, exitnode_cache)
         else (None, self1, Regular (snapshot exit_candidates)))"

subsection \<open>Incoming EVA transfers\<close>

text \<open>
  Modelled from the spec: \<open>TransferWindow\<close> and \<open>IncomingTransfer.make_acknowledgement\<close>
  (\<open>transfer_window.py\<close> and \<open>incoming_transfer.py\<close> are not among the sources; their test
  \<open>test_incoming_transfer.py\<close> is). A window has a start, a count of processed blocks and
  \<open>size\<close> block slots, empty at first. Following the receiver's state machine in the
  specification, making an acknowledgement
  \<^item> flushes the window's blocks into \<open>data_list\<close>: the consecutive blocks before the first
    empty slot are appended, in order;
  \<^item> moves the start to the next expected block, which is the number of blocks flushed so
    far, the length of \<open>data_list\<close> (the specification's scenario calls it the
    prefix-consumed count, and the test expects 4 from a window that started at 10);
  \<^item> resets \<open>processed\<close> to 0 and the block buffer to \<open>protocol.window_size\<close> empty slots;
  \<^item> returns \<open>Acknowledgement(number, window_size)\<close> with the new start and the number of
    slots of the new window.
  Without a window (the first acknowledgement) nothing is flushed.
\<close>

record transfer_window =
  window_start :: nat
  processed :: nat
  blocks :: "bytes option list"

definition TransferWindow :: "nat \<Rightarrow> nat \<Rightarrow> transfer_window" where
  "TransferWindow start sz =
     \<lparr>window_start = start, processed = 0, blocks = replicate sz None\<rparr>"

fun consecutive_blocks :: "bytes option list \<Rightarrow> bytes list" where
  "consecutive_blocks [] = []"
| "consecutive_blocks (None # bs) = []"
| "consecutive_blocks (Some b # bs) = b # consecutive_blocks bs"

record acknowledgement =
  ack_number :: nat
  ack_window_size :: nat
  ack_nonce :: nat

record incoming_transfer =
  window :: "transfer_window option"
  data_list :: "bytes list"
  protocol_window_size :: nat
  transfer_nonce :: nat

definition make_acknowledgement ::
  "incoming_transfer \<Rightarrow> acknowledgement \<times> incoming_transfer" where
  "make_acknowledgement self =
     (let flushed = (case window self of
                       None \<Rightarrow> data_list self
                     | Some w \<Rightarrow> data_list self @ consecutive_blocks (blocks w));
          w' = TransferWindow (length flushed) (protocol_window_size self)
      in (\<lparr>ack_number = window_start w', ack_window_size = length (blocks w'),
           ack_nonce = transfer_nonce self\<rparr>,
          self\<lparr>window := Some w', data_list := flushed\<rparr>))"

text \<open>
  The fixture of the test: a transfer with nonce 0, no window and no data yet, for a
  protocol with the given window size.
\<close>

definition incoming_transfer_fixture :: "nat \<Rightarrow> incoming_transfer" where
  "incoming_transfer_fixture protocol_size =
     \<lparr>window = None, data_list = [], protocol_window_size = protocol_size, transfer_nonce = 0\<rparr>"

subsection \<open>The download monitor\<close>

text \<open>
  The calls the monitor makes on its collaborators, in the order it makes them:
  \<open>join_swarm(info_hash, hops, seeding=...)\<close>, \<open>leave_swarm(info_hash)\<close>,
  \<open>create_introduction_point(info_hash)\<close>, and \<open>download.force_dht_announce()\<close> with the
  real infohash of the download. A forced announce also carries the number of clock
  readings taken before it: with \<open>n\<close>, the call lies between the readings \<open>n - 1\<close> (the
  one the throttle compared) and \<open>n\<close> (the one recorded in \<open>last_forced_announce\<close>).
\<close>

datatype call =
    Join_swarm bytes int bool
  | Leave_swarm bytes
  | Create_introduction_point bytes
  | Force_dht_announce bytes nat

definition dict_get :: "('k, 'v) fmap \<Rightarrow> 'k \<Rightarrow> 'v \<Rightarrow> 'v" where
  "dict_get d k dflt = (case fmlookup d k of None \<Rightarrow> dflt | Some v \<Rightarrow> v)"

definition active :: "DownloadStatus list" where
  "active = [DOWNLOADING, SEEDING, METADATA]"

text \<open>\<open>x in active\<close> for a status that may be \<open>None\<close>.\<close>

definition in_active :: "DownloadStatus option \<Rightarrow> bool" where
  "in_active st = (case st of None \<Rightarrow> False | Some s \<Rightarrow> s \<in> set active)"

text \<open>
  \<open>ip_counter.get(info_hash, 0)\<close>: the number of circuits of type \<open>IP_SEEDER\<close> for the
  infohash.
\<close>

definition ip_counter :: "('r, 'e) community \<Rightarrow> bytes \<Rightarrow> int" where
  "ip_counter self ih =
     dict_count (\<lambda>c. ctype c = CIRCUIT_TYPE_IP_SEEDER \<and> circuit_info_hash c = Some ih)
       (circuits self)"

text \<open>
  The body of the loop of \<open>monitor_hidden_swarms\<close> for one infohash. \<open>hops[info_hash]\<close>
  raises \<open>KeyError\<close> when the key is missing; it is evaluated before \<open>join_swarm\<close> is
  called.
\<close>

definition swarm_body ::
  "(bytes \<Rightarrow> int) \<Rightarrow> (bytes, DownloadStatus) fmap \<Rightarrow> (bytes, int) fmap \<Rightarrow>
   ('r, 'e) community \<Rightarrow> bytes \<Rightarrow> py_error option \<times> ('r, 'e) community \<times> call list" where
  "swarm_body counter new_states hops self info_hash =
     (let new_state = fmlookup new_states info_hash;
          old_state = fmlookup (download_states self) info_hash;
          state_changed = (new_state \<noteq> old_state);
          joined =
            (if state_changed \<and> in_active new_state then
               (if old_state \<noteq> Some METADATA \<or> new_state \<noteq> Some DOWNLOADING then
                  (case fmlookup hops info_hash of
                     None \<Rightarrow> Inl KeyError
                   | Some h \<Rightarrow> Inr [Join_swarm info_hash h (new_state = Some SEEDING)])
                else Inr [])
             else if state_changed \<and> (new_state = Some STOPPED \<or> new_state = None) then
               Inr [Leave_swarm info_hash]
             else Inr [])
      in case joined of
           Inl e \<Rightarrow> (Some e, self, [])
         | Inr calls \<Rightarrow>
             if new_state = Some SEEDING then
               (let n = nat (1 - counter info_hash)
                in (None,
                    self\<lparr>logger := logger self
                            @ replicate n (Info_create_introducing_circuit info_hash)\<rparr>,
                    calls @ replicate n (Create_introduction_point info_hash)))
             else (None, self, calls))"

fun swarm_loop ::
  "(bytes \<Rightarrow> int) \<Rightarrow> (bytes, DownloadStatus) fmap \<Rightarrow> (bytes, int) fmap \<Rightarrow>
   ('r, 'e) community \<Rightarrow> bytes list \<Rightarrow> py_error option \<times> ('r, 'e) community \<times> call list" where
  "swarm_loop counter new_states hops self [] = (None, self, [])"
| "swarm_loop counter new_states hops self (info_hash # rest) =
     (case swarm_body counter new_states hops self info_hash of
        (Some e, self1, calls) \<Rightarrow> (Some e, self1, calls)
      | (None, self1, calls) \<Rightarrow>
          (case swarm_loop counter new_states hops self1 rest of
             (raised, self2, calls2) \<Rightarrow> (raised, self2, calls @ calls2)))"

text \<open>
  \<open>monitor_hidden_swarms\<close>. The loop runs over the set of the keys of \<open>new_states\<close> and
  \<open>self.download_states\<close>; Python leaves the order of a set open, the model takes the
  keys in ascending order.
\<close>

definition monitor_hidden_swarms ::
  "('r, 'e) community \<Rightarrow> (bytes, DownloadStatus) fmap \<Rightarrow> (bytes, int) fmap \<Rightarrow>
   py_error option \<times> ('r, 'e) community \<times> call list" where
  "monitor_hidden_swarms self new_states hops =
     swarm_loop (ip_counter self) new_states hops self
       (sorted_list_of_fset (fmdom new_states |\<union>| fmdom (download_states self)))"

text \<open>
  A download state \<open>ds\<close> as \<open>monitor_downloads\<close> reads it: its download (whether it is
  hidden, \<open>config.get_hops()\<close>, \<open>get_def().get_infohash()\<close> and the status of the
  download's current state), \<open>ds.get_status()\<close> and \<open>ds.get_peer_list()\<close>.
\<close>

record download =
  download_hidden :: bool
  config_hops :: int
  def_infohash :: bytes
  state_status :: DownloadStatus

record download_state =
  ds_download :: download
  ds_status :: DownloadStatus
  ds_peer_list :: "address list"

text \<open>The local variables of \<open>monitor_downloads\<close> during its loop, the community, the
  number of clock readings taken so far, and the calls made so far.\<close>

record ('r, 'e) monitor_loop =
  loop_new_states :: "(bytes, DownloadStatus) fmap"
  loop_hops :: "(bytes, int) fmap"
  loop_active_downloads_per_hop :: "(int, int) fmap"
  loop_self :: "('r, 'e) community"
  loop_ticks :: nat
  loop_calls :: "call list"

text \<open>
  The body of the loop of \<open>monitor_downloads\<close>. \<open>clock n\<close> is what the \<open>n\<close>-th call of
  \<open>time.time()\<close> returns; \<open>find_circuits h\<close> says whether \<open>self.find_circuits(loop_hops=h)\<close> is
  non-empty, \<open>has_session h\<close> is the download manager's answer.
\<close>

definition monitor_body ::
  "(nat \<Rightarrow> real) \<Rightarrow> (bytes \<Rightarrow> bytes) \<Rightarrow> (int \<Rightarrow> bool) \<Rightarrow> (int \<Rightarrow> bool) \<Rightarrow>
   download_state \<Rightarrow> ('r, 'e) monitor_loop \<Rightarrow> ('r, 'e) monitor_loop" where
  "monitor_body clock sha1 find_circuits has_session ds acc =
     (let download = ds_download ds in
      if download_hidden download then acc
      else
        let hop_count = config_hops download in
        if hop_count > 0 then
          let real_info_hash = def_infohash download;
              info_hash = get_lookup_info_hash sha1 real_info_hash;
              acc1 = acc\<lparr>loop_hops := fmupd info_hash hop_count (loop_hops acc),
                         loop_new_states := fmupd info_hash (ds_status ds) (loop_new_states acc)\<rparr>
          in if state_status download \<in> set active then
               let acc2 = acc1\<lparr>loop_active_downloads_per_hop :=
                             fmupd hop_count
                               (dict_get (loop_active_downloads_per_hop acc1) hop_count 0 + 1)
                               (loop_active_downloads_per_hop acc1),
                           loop_ticks := loop_ticks acc1 + 1\<rparr>
               in if dict_get (last_forced_announce (loop_self acc2)) real_info_hash 0 + 60
                       \<le> clock (loop_ticks acc1)
                     \<and> find_circuits hop_count \<and> ds_peer_list ds = []
                     \<and> has_session hop_count
                  then acc2\<lparr>loop_calls := loop_calls acc2 @ [Force_dht_announce real_info_hash (loop_ticks acc2)],
                            loop_self := (loop_self acc2)\<lparr>last_forced_announce :=
                               fmupd real_info_hash (clock (loop_ticks acc2))
                                 (last_forced_announce (loop_self acc2))\<rparr>,
                            loop_ticks := loop_ticks acc2 + 1\<rparr>
                  else acc2
             else acc1
        else acc)"

text \<open>
  \<open>monitor_downloads\<close>: the loop over \<open>dslist\<close>, then \<open>circuits_needed\<close>, then
  \<open>monitor_hidden_swarms\<close>, then \<open>self.download_states = loop_new_states\<close> (not reached when
  \<open>monitor_hidden_swarms\<close> raises). The result is the exception if any, the community
  afterwards, the number of clock readings taken, and the loop_calls made.
\<close>

definition monitor_downloads ::
  "(nat \<Rightarrow> real) \<Rightarrow> (bytes \<Rightarrow> bytes) \<Rightarrow> (int \<Rightarrow> bool) \<Rightarrow> (int \<Rightarrow> bool) \<Rightarrow>
   ('r, 'e) community \<Rightarrow> nat \<Rightarrow> download_state list \<Rightarrow>
   py_error option \<times> ('r, 'e) community \<times> nat \<times> call list" where
  "monitor_downloads clock sha1 find_circuits has_session self ticks0 dslist =
     (let acc = fold (monitor_body clock sha1 find_circuits has_session) dslist
                  \<lparr>loop_new_states = fmempty, loop_hops = fmempty,
                   loop_active_downloads_per_hop =
                     (if default_hops self > 0 then fmupd (default_hops self) 0 fmempty
                      else fmempty),
                   loop_self = self, loop_ticks = ticks0, loop_calls = []\<rparr>;
          self1 = (loop_self acc)\<lparr>circuits_needed :=
                     fmmap (\<lambda>download_count.
                              min (max download_count (min_circuits self)) (max_circuits self))
                       (loop_active_downloads_per_hop acc)\<rparr>
      in case monitor_hidden_swarms self1 (loop_new_states acc) (loop_hops acc) of
           (Some e, self2, swarm_calls) \<Rightarrow> (Some e, self2, loop_ticks acc, loop_calls acc @ swarm_calls)
         | (None, self2, swarm_calls) \<Rightarrow>
             (None, self2\<lparr>download_states := loop_new_states acc\<rparr>, loop_ticks acc,
              loop_calls acc @ swarm_calls))"

text \<open>
  One poll of \<open>_poll_download_manager\<close>: the download states the download manager
  returns, and its answers and the circuits' during this poll.
\<close>

record poll =
  poll_dslist :: "download_state list"
  poll_find_circuits :: "int \<Rightarrow> bool"
  poll_has_session :: "int \<Rightarrow> bool"

text \<open>
  The coroutine \<open>_poll_download_manager\<close>, run once per poll: it calls \<open>monitor_downloads\<close>
  and logs any exception instead of raising it.
\<close>

fun poll_download_manager ::
  "(nat \<Rightarrow> real) \<Rightarrow> (bytes \<Rightarrow> bytes) \<Rightarrow> ('r, 'e) community \<Rightarrow> nat \<Rightarrow> poll list \<Rightarrow>
   ('r, 'e) community \<times> nat \<times> call list" where
  "poll_download_manager clock sha1 self ticks0 [] = (self, ticks0, [])"
| "poll_download_manager clock sha1 self ticks0 (p # ps) =
     (case monitor_downloads clock sha1 (poll_find_circuits p) (poll_has_session p) self ticks0
             (poll_dslist p) of
        (raised, self1, ticks1, calls1) \<Rightarrow>
          (case poll_download_manager clock sha1
                  (case raised of None \<Rightarrow> self1
                   | Some e \<Rightarrow> log_msg Error_polling_download_manager self1)
                  ticks1 ps of
             (self2, ticks2, calls2) \<Rightarrow> (self2, ticks2, calls1 @ calls2)))"

text \<open>The calls of \<open>join_swarm\<close> for a given infohash.\<close>

fun is_join_swarm :: "bytes \<Rightarrow> call \<Rightarrow> bool" where
  "is_join_swarm ih (Join_swarm i h s) = (i = ih)"
| "is_join_swarm ih c = False"

text \<open>
  The specification's transition predicate for joining a swarm, written from its words:
  the state changed, the new state is one of \<open>DOWNLOADING\<close>, \<open>SEEDING\<close>, \<open>METADATA\<close>, and
  it is not the case that the old state was \<open>METADATA\<close> and the new one is \<open>DOWNLOADING\<close>.
\<close>

definition should_join_swarm ::
  "DownloadStatus option \<Rightarrow> DownloadStatus option \<Rightarrow> bool" where
  "should_join_swarm old_state new_state =
     (new_state \<noteq> old_state
      \<and> (new_state = Some DOWNLOADING \<or> new_state = Some SEEDING \<or> new_state = Some METADATA)
      \<and> \<not> (old_state = Some METADATA \<and> new_state = Some DOWNLOADING))"

text \<open>
  The forced announces among the calls, in order: the real infohash and the number of
  clock readings taken before the call.
\<close>

fun announces :: "call list \<Rightarrow> (bytes \<times> nat) list" where
  "announces [] = []"
| "announces (Force_dht_announce ih n # cs) = (ih, n) # announces cs"
| "announces (c # cs) = announces cs"

text \<open>
  The invariant of the throttle, for the announces made so far, the dictionary
  \<open>last_forced_announce\<close> and the number \<open>t\<close> of clock readings taken: every announce was
  made before reading \<open>t\<close>, and the time recorded for its infohash is not before the reading
  that followed it; of two announces for the same infohash, the reading that followed the
  earlier one is at least 60 seconds before the reading the later one was checked
  against; the announces are in the order of their readings.
\<close>

definition throttle_inv ::
  "(nat \<Rightarrow> real) \<Rightarrow> (bytes, real) fmap \<Rightarrow> nat \<Rightarrow> (bytes \<times> nat) list \<Rightarrow> bool" where
  "throttle_inv clock recorded t as =
     ((\<forall>ih m. (ih, m) \<in> set as \<longrightarrow>
         m < t \<and> (\<exists>v. fmlookup recorded ih = Some v \<and> clock m \<le> v))
      \<and> (\<forall>ih m n. (ih, m) \<in> set as \<and> (ih, n) \<in> set as \<and> m < n \<longrightarrow>
            clock m + 60 \<le> clock (n - 1))
      \<and> sorted_wrt (<) (map snd as))"

text \<open>
  Example inputs of the monitor: a community that knows three downloads, and the states
  and hop counts of a poll in which the first went from \<open>METADATA\<close> to \<open>DOWNLOADING\<close>, the
  second from \<open>STOPPED\<close> to \<open>SEEDING\<close>, and the third disappeared.
\<close>

definition swarm_node :: "(unit, unit) community" where
  "swarm_node = (new_community 100 1 8 1)
     \<lparr>download_states := fmap_of_list [(''aa'', METADATA), (''bb'', STOPPED), (''cc'', SEEDING)]\<rparr>"

definition swarm_new_states :: "(bytes, DownloadStatus) fmap" where
  "swarm_new_states = fmap_of_list [(''aa'', DOWNLOADING), (''bb'', SEEDING)]"

definition swarm_hops :: "(bytes, int) fmap" where
  "swarm_hops = fmap_of_list [(''aa'', 1), (''bb'', 2)]"

text \<open>
  A clock that advances 40 seconds between two readings, an anonymous download without
  peers, and a poll that reports it while circuits and a session are available.
\<close>

definition example_clock :: "nat \<Rightarrow> real" where
  "example_clock n = 40 * real n"

definition example_download_state :: download_state where
  "example_download_state =
     \<lparr>ds_download = \<lparr>download_hidden = False, config_hops = 1, def_infohash = ''ab'',
                     state_status = DOWNLOADING\<rparr>,
      ds_status = DOWNLOADING, ds_peer_list = []\<rparr>"

definition example_poll :: poll where
  "example_poll = \<lparr>poll_dslist = [example_download_state], poll_find_circuits = (\<lambda>h. True),
                poll_has_session = (\<lambda>h. True)\<rparr>"

subsection \<open>HTTP requests in flight\<close>

text \<open>
  The part of \<open>on_http_request\<close> that runs before its first \<open>await\<close> (the two guards and
  the debug lines): whether the request goes on to the TCP exchange, and the community
  at that point. Requests that got this far stay in flight until their exchange ends.
\<close>

definition on_http_request_start ::
  "('r, 'e) community \<Rightarrow> circuit_id \<Rightarrow> bool \<times> ('r, 'e) community" where
  "on_http_request_start self cid =
     (if cid |\<notin>| fmdom (exit_sockets self)
      then (False, log_msg Warning_unexpected_http_request self)
      else if outstanding_http_requests self cid > 5
      then (False, log_msg Warning_too_many_http_requests self)
      else (True, log_msg Debug_opening_tcp_connection (log_msg Debug_got_http_request self)))"

text \<open>
  Requests arriving one after the other on the given circuits while none of the earlier
  ones has finished: the number of them that are in flight on circuit \<open>c\<close> afterwards,
  and the community.
\<close>

fun http_requests_in_flight ::
  "('r, 'e) community \<Rightarrow> circuit_id list \<Rightarrow> circuit_id \<Rightarrow> nat \<times> ('r, 'e) community" where
  "http_requests_in_flight self [] c = (0, self)"
| "http_requests_in_flight self (cid # cids) c =
     (case on_http_request_start self cid of
        (admitted, self1) \<Rightarrow>
          (case http_requests_in_flight self1 cids c of
             (n, self2) \<Rightarrow> ((if admitted \<and> cid = c then 1 else 0) + n, self2)))"

section \<open>Join-circuit admission: properties\<close>

text \<open>
  C1. \<open>should_join_circuit\<close> admits a request (its future fires with \<open>True\<close>) if and only
  if the number of joined circuits, \<open>|relay_from_to| + |exit_sockets|\<close>, is strictly below
  \<open>max_joined_circuits\<close>; otherwise the future fires with \<open>False\<close>. In both cases the
  circuits, relays and exit sockets are left as they were.
\<close>

theorem should_join_circuit_budget:
  "fst (should_join_circuit self create_payload previous_node_address) =
     (dict_len (relay_from_to self) + dict_len (exit_sockets self) < max_joined_circuits self)
   \<and> circuits (snd (should_join_circuit self create_payload previous_node_address)) = circuits self
   \<and> relay_from_to (snd (should_join_circuit self create_payload previous_node_address)) =
       relay_from_to self
   \<and> exit_sockets (snd (should_join_circuit self create_payload previous_node_address)) =
       exit_sockets self
   \<and> max_joined_circuits (snd (should_join_circuit self create_payload previous_node_address)) =
       max_joined_circuits self"
  by (simp add: should_join_circuit_def Let_def)

text \<open>
  The scenario of the specification: with \<open>max_joined_circuits = 5\<close>, three relays and two
  exit sockets, the next request is refused with a warning and the registry is unchanged.
\<close>

lemma should_join_circuit_scenario:
  "should_join_circuit
     ((new_community 5 1 8 1 :: (unit, unit) community)
        \<lparr>circuits := fmap_of_list [(7, \<lparr>ctype = CIRCUIT_TYPE_DATA, circuit_info_hash = None\<rparr>)],
         relay_from_to := fmap_of_list [(1, ()), (2, ()), (3, ())],
         exit_sockets := fmap_of_list [(4, ()), (5, ())]\<rparr>) () ()
   = (False,
      (new_community 5 1 8 1)
        \<lparr>circuits := fmap_of_list [(7, \<lparr>ctype = CIRCUIT_TYPE_DATA, circuit_info_hash = None\<rparr>)],
         relay_from_to := fmap_of_list [(1, ()), (2, ()), (3, ())],
         exit_sockets := fmap_of_list [(4, ()), (5, ())],
         logger := [Warning_too_many_relays 5]\<rparr>)"
  by (simp add: should_join_circuit_def new_community_def dict_len_def fcard_finsert_if)

section \<open>Available discovery strategies: properties\<close>

text \<open>
  C10. \<open>get_available_strategies\<close> returns \<open>None\<close> whatever the superclass offers: it
  returns what \<open>dict.update\<close> returns, not the merged dictionary, although the merged
  dictionary (the mutated receiver) does hold \<open>GoldenRatioStrategy\<close>.
\<close>

theorem get_available_strategies_returns_none:
  "get_available_strategies super_strategies = PyNone
   \<and> fmlookup (snd (dict_update super_strategies
                      (fmap_of_list [(''GoldenRatioStrategy'', GoldenRatioStrategy)])))
        ''GoldenRatioStrategy'' = Some GoldenRatioStrategy"
  by (simp add: get_available_strategies_def dict_update_def)

section \<open>Lookup infohash: properties\<close>

lemma hex_digit_table: "list_all (\<lambda>n. hex_digit n = spec_hex_char n) [0..<16]"
  by code_simp

lemma hex_digit_spec: "n < 16 \<Longrightarrow> hex_digit n = spec_hex_char n"
  using hex_digit_table by (simp add: list_all_iff)

lemma of_char_less_256: "of_char c < (256::nat)"
  by (metis of_char_mod_256 mod_less_divisor zero_less_numeral)

lemma hexlify_spec_hex: "hexlify data = spec_hex data"
proof (induction data)
  case Nil
  show ?case by (simp add: hexlify_def)
next
  case (Cons c cs)
  have "(of_char c :: nat) < 16 * 16"
    using of_char_less_256 [of c] by simp
  then have hi: "(of_char c :: nat) div 16 < 16"
    by (rule less_mult_imp_div_less)
  have lo: "(of_char c :: nat) mod 16 < 16"
    by simp
  from Cons hi lo show ?case
    by (simp add: hexlify_def drop_bit_eq_div take_bit_eq_mod hex_digit_spec)
qed

lemma length_hexlify: "length (hexlify data) = 2 * length data"
  by (induction data) (simp_all add: hexlify_def)

lemma hexlify_example: "hexlify [CHR 0xA3, CHR 0x59, CHR 0x1A, CHR 0x6B] = ''a3591a6b''"
  by code_simp

text \<open>
  C2. For every infohash, \<open>get_lookup_info_hash\<close> is the SHA1 digest of the bytes
  \<open>tribler anonymous download\<close> followed by the hexadecimal encoding of the infohash.
\<close>

theorem get_lookup_info_hash_spec:
  "get_lookup_info_hash sha1 info_hash =
     sha1 (''tribler anonymous download'' @ spec_hex info_hash)"
  by (simp add: get_lookup_info_hash_def hexlify_spec_hex)

section \<open>HTTP requests at the exit node: properties\<close>

subsection \<open>Fragmentation of the response\<close>

text \<open>The ceiling of a quotient of naturals, as an integer division.\<close>

lemma ceiling_div_nat: "0 < m \<Longrightarrow> \<lceil>real n / real m\<rceil> = int ((n + (m - 1)) div m)"
proof -
  assume m: "0 < m"
  define q where "q = (n + (m - 1)) div m"
  have up: "real n \<le> real q * real m"
  proof -
    have "n + (m - 1) < (q + 1) * m"
      unfolding q_def using m
      by (metis Suc_eq_plus1 dividend_less_div_times mult.commute add.commute less_add_Suc2 mult_Suc)
    then have "n \<le> q * m" using m by (simp add: algebra_simps) 
    then show ?thesis by (metis of_nat_le_iff of_nat_mult)
  qed
  have lo: "real q * real m < real n + real m"
  proof -
    have "q * m \<le> n + (m - 1)" unfolding q_def by simp
    then have "q * m < n + m" using m by linarith
    then show ?thesis by (metis of_nat_less_iff of_nat_mult of_nat_add)
  qed
  have "\<lceil>real n / real m\<rceil> = int q"
  proof (rule ceiling_unique)
    show "real_of_int (int q) - 1 < real n / real m"
      using lo m by (simp add: field_simps)
    show "real n / real m \<le> real_of_int (int q)"
      using up m by (simp add: field_simps)
  qed
  then show ?thesis by (simp add: q_def)
qed

lemma num_cells_of_div: "num_cells_of response = int ((length response + 1399) div 1400)"
  using ceiling_div_nat [of 1400 "length response"]
  by (simp add: num_cells_of_def MAX_HTTP_PACKET_SIZE_def)

lemma concat_slices: "concat (map (\<lambda>i. slice x (i * m) ((i + 1) * m)) [0..<n]) = take (n * m) x"
proof (induction n)
  case 0
  show ?case by simp
next
  case (Suc n)
  have "slice x (n * m) ((n + 1) * m) = take m (drop (n * m) x)"
    by (simp add: slice_def)
  with Suc show ?case
    by (simp add: take_add [symmetric] add.commute)
qed

lemma cells_cover: "length response \<le> nat (num_cells_of response) * MAX_HTTP_PACKET_SIZE"
proof -
  have "length response + 1399 < ((length response + 1399) div 1400 + 1) * 1400"
    by (metis Suc_eq_plus1 dividend_less_div_times mult.commute mult_Suc zero_less_numeral)
  then show ?thesis 
    by (simp add: num_cells_of_div MAX_HTTP_PACKET_SIZE_def)
qed

lemma response_cells_fragments:
  "map (rsp_response \<circ> snd) (response_cells a cid ident response) =
   map (\<lambda>i. slice response (i * MAX_HTTP_PACKET_SIZE) ((i + 1) * MAX_HTTP_PACKET_SIZE))
     [0..<nat (num_cells_of response)]"
  unfolding response_cells_def by (simp add: comp_def del: mult_Suc add_Suc_right)

lemma response_cells_concat:
  "concat (map (rsp_response \<circ> snd) (response_cells a cid ident response)) = response"
proof -
  have "concat (map (rsp_response \<circ> snd) (response_cells a cid ident response)) =
        take (nat (num_cells_of response) * MAX_HTTP_PACKET_SIZE) response"
    by (simp only: response_cells_fragments concat_slices)
  then show ?thesis
    using cells_cover [of response] by simp
qed

lemma response_cells_length: "int (length (response_cells a cid ident response)) = num_cells_of response"
  by (simp add: response_cells_def num_cells_of_div)

lemma response_cells_parts: "map (rsp_part \<circ> snd) (response_cells a cid ident response) = map int [0..<nat (num_cells_of response)]"
  by (simp add: response_cells_def comp_def)

lemma response_cells_each:
  "c \<in> set (response_cells a cid ident response) \<Longrightarrow>
   fst c = a \<and> rsp_circuit_id (snd c) = cid \<and> rsp_identifier (snd c) = ident \<and>
   rsp_total (snd c) = num_cells_of response \<and> length (rsp_response (snd c)) \<le> 1400"
  by (auto simp: response_cells_def slice_def MAX_HTTP_PACKET_SIZE_def)

lemma num_cells_3000: "length response = 3000 \<Longrightarrow> num_cells_of response = 3"
  by (simp add: num_cells_of_div)
lemma upt_0_3: "[0..<3] = [0, 1, 2::nat]"
  by (simp add: upt_rec)

lemma on_http_request_forwarded:
  assumes "cid |\<in>| fmdom (exit_sockets self)"
    and "outstanding_http_requests self cid \<le> 5"
    and "fetch (req_target payload) (req_request payload) = Fetched response"
    and "startswith response ''HTTP/1.1 307''
         \<or> is_bencoded bdecode (snd (snd (bytes_partition response CRLF_CRLF)))"
  shows "on_http_request fetch bdecode self source_address payload cid =
         (log_msg Debug_opening_tcp_connection (log_msg Debug_got_http_request self),
          response_cells source_address cid (req_identifier payload) response)"
  using assms by (auto simp: on_http_request_def Let_def)

text \<open>
  C4. When the exit node forwards a response, \<open>on_http_request\<close> sends exactly
  \<open>num_cells = ceil(len(response) / MAX_HTTP_PACKET_SIZE)\<close> cells, with
  \<open>MAX_HTTP_PACKET_SIZE = 1400\<close>; the cells carry the parts \<open>0, ..., num_cells - 1\<close> in
  this order, each with \<open>total = num_cells\<close> and a fragment of at most 1400 bytes; the
  fragments, concatenated in the order of their parts, are the response; a response of
  3000 bytes gives 3 cells.
\<close>

theorem on_http_request_fragmentation:
  assumes "cid |\<in>| fmdom (exit_sockets self)"
    and "outstanding_http_requests self cid \<le> 5"
    and "fetch (req_target payload) (req_request payload) = Fetched response"
    and "startswith response ''HTTP/1.1 307''
         \<or> is_bencoded bdecode (snd (snd (bytes_partition response CRLF_CRLF)))"
    and "cells = snd (on_http_request fetch bdecode self source_address payload cid)"
  shows "MAX_HTTP_PACKET_SIZE = 1400
    \<and> int (length cells) = \<lceil>real (length response) / real MAX_HTTP_PACKET_SIZE\<rceil>
    \<and> map (\<lambda>c. rsp_part (snd c)) cells = map int [0..<length cells]
    \<and> (\<forall>c \<in> set cells. fst c = source_address \<and> rsp_circuit_id (snd c) = cid
          \<and> rsp_identifier (snd c) = req_identifier payload
          \<and> rsp_total (snd c) = int (length cells)
          \<and> length (rsp_response (snd c)) \<le> 1400)
    \<and> concat (map (\<lambda>c. rsp_response (snd c)) cells) = response
    \<and> (length response = 3000 \<longrightarrow> length cells = 3)"
proof -
  have cells: "cells = response_cells source_address cid (req_identifier payload) response"
    using assms by (simp add: on_http_request_forwarded)
  have len: "int (length cells) = num_cells_of response"
    unfolding cells by (rule response_cells_length)
  have parts: "map (\<lambda>c. rsp_part (snd c)) cells = map int [0..<length cells]"
    by (simp add: cells response_cells_def)
  have each: "\<forall>c \<in> set cells. fst c = source_address \<and> rsp_circuit_id (snd c) = cid
          \<and> rsp_identifier (snd c) = req_identifier payload
          \<and> rsp_total (snd c) = int (length cells)
          \<and> length (rsp_response (snd c)) \<le> 1400"
    using response_cells_each [of _ source_address cid "req_identifier payload" response] len
    by (simp add: cells)
  have cat: "concat (map (\<lambda>c. rsp_response (snd c)) cells) = response"
    using response_cells_concat [of source_address cid "req_identifier payload" response]
    by (simp add: cells comp_def)
  have three: "length response = 3000 \<longrightarrow> length cells = 3"
    using len by (simp add: num_cells_of_div)
  from len parts each cat three show ?thesis
    by (simp add: MAX_HTTP_PACKET_SIZE_def num_cells_of_def)
qed

lemma exit_node_with_socket: "1 |\<in>| fmdom (exit_sockets (exit_node_with cs))"
  by (simp add: exit_node_with_def)
lemma exit_node_with_no_requests: "outstanding_http_requests (exit_node_with []) 1 = 0"
  by (simp add: exit_node_with_def outstanding_http_requests_def dict_count_def)
lemma redirect_3000_startswith: "startswith redirect_3000 ''HTTP/1.1 307''"
  by (simp add: startswith_def redirect_3000_def)
lemma redirect_3000_length: "length redirect_3000 = 3000"
  by (simp add: redirect_3000_def)

theorem on_http_request_fragmentation_witness:
  "1 |\<in>| fmdom (exit_sockets (exit_node_with []))
   \<and> outstanding_http_requests (exit_node_with []) 1 \<le> 5
   \<and> startswith redirect_3000 ''HTTP/1.1 307''
   \<and> length (snd (on_http_request (\<lambda>t r. Fetched redirect_3000) (\<lambda>x. None :: unit option)
                (exit_node_with []) (''10.0.0.1'', 8000) tracker_request 1)) = 3
   \<and> map (\<lambda>c. rsp_part (snd c))
        (snd (on_http_request (\<lambda>t r. Fetched redirect_3000) (\<lambda>x. None :: unit option)
                (exit_node_with []) (''10.0.0.1'', 8000) tracker_request 1)) = [0, 1, 2]
   \<and> concat (map (\<lambda>c. rsp_response (snd c))
        (snd (on_http_request (\<lambda>t r. Fetched redirect_3000) (\<lambda>x. None :: unit option)
                (exit_node_with []) (''10.0.0.1'', 8000) tracker_request 1))) = redirect_3000"
proof -
  have h2: "outstanding_http_requests (exit_node_with []) 1 \<le> 5"
    by (simp add: exit_node_with_no_requests)
  have h4: "startswith redirect_3000 ''HTTP/1.1 307''
         \<or> is_bencoded (\<lambda>x. None :: unit option) (snd (snd (bytes_partition redirect_3000 CRLF_CRLF)))"
    by (simp add: redirect_3000_startswith)
  show ?thesis
    using on_http_request_fragmentation [OF exit_node_with_socket h2 _ h4 refl,
        of "\<lambda>t r. Fetched redirect_3000" tracker_request "(''10.0.0.1'', 8000)"]
    by (simp add: exit_node_with_socket exit_node_with_no_requests redirect_3000_startswith redirect_3000_length upt_0_3)
qed

subsection \<open>The cap on requests per circuit\<close>

text \<open>
  \<open>on_http_request\<close> is its start followed by the TCP exchange and the reply.
\<close>

lemma on_http_request_start_then_fetch:
  "on_http_request fetch bdecode self source_address payload cid =
     (case on_http_request_start self cid of
        (False, self1) \<Rightarrow> (self1, [])
      | (True, self1) \<Rightarrow>
          (case fetch (req_target payload) (req_request payload) of
             Raised_OSError \<Rightarrow> (log_msg Warning_http_request_failed self1, [])
           | Raised_TimeoutError \<Rightarrow> (log_msg Warning_http_request_timed_out self1, [])
           | Fetched response \<Rightarrow>
               if \<not> startswith response ''HTTP/1.1 307''
                  \<and> \<not> is_bencoded bdecode (snd (snd (bytes_partition response CRLF_CRLF)))
               then (log_msg Warning_http_request_not_allowed self1, [])
               else (self1, response_cells source_address cid (req_identifier payload) response)))"
  by (simp add: on_http_request_def on_http_request_start_def Let_def)

text \<open>
  The guard as coded: a request on an exit socket goes on unless the request cache holds
  more than five \<open>HTTPRequestCache\<close> entries of its circuit. Neither the start nor the
  whole handler adds an entry, so serving a request never changes the count.
\<close>

lemma on_http_request_start_threshold:
  "fst (on_http_request_start self cid) =
     (cid |\<in>| fmdom (exit_sockets self) \<and> outstanding_http_requests self cid \<le> 5)"
  by (auto simp: on_http_request_start_def)

lemma on_http_request_start_keeps:
  "request_cache (snd (on_http_request_start self cid)) = request_cache self
   \<and> exit_sockets (snd (on_http_request_start self cid)) = exit_sockets self
   \<and> circuits (snd (on_http_request_start self cid)) = circuits self"
  by (simp add: on_http_request_start_def log_msg_def)

lemma on_http_request_keeps_request_cache:
  "request_cache (fst (on_http_request fetch bdecode self source_address payload cid)) =
     request_cache self
   \<and> exit_sockets (fst (on_http_request fetch bdecode self source_address payload cid)) =
     exit_sockets self"
  by (simp add: on_http_request_def Let_def log_msg_def split: fetch_result.splits)

lemma on_http_request_keeps_count:
  "outstanding_http_requests (fst (on_http_request fetch bdecode self source_address payload cid)) c
     = outstanding_http_requests self c"
  by (simp add: outstanding_http_requests_def on_http_request_keeps_request_cache)

lemma on_http_request_start_keeps_count:
  "outstanding_http_requests (snd (on_http_request_start self cid)) c
     = outstanding_http_requests self c"
  by (simp add: outstanding_http_requests_def on_http_request_start_keeps)

lemma dict_count_none:
  assumes "\<And>k v. fmlookup d k = Some v \<Longrightarrow> \<not> P v"
  shows "dict_count P d = 0"
proof -
  have "fmfilter (\<lambda>k. case fmlookup d k of Some v \<Rightarrow> P v | None \<Rightarrow> False) d = fmempty"
  proof (rule fmap_ext)
    fix k
    show "fmlookup (fmfilter (\<lambda>k. case fmlookup d k of Some v \<Rightarrow> P v | None \<Rightarrow> False) d) k
          = fmlookup fmempty k"
      using assms [of k] by (cases "fmlookup d k") auto
  qed
  then show ?thesis
    by (simp add: dict_count_def)
qed

text \<open>
  On a node that keeps its circuits and its exit sockets apart, and whose
  \<open>HTTPRequestCache\<close> entries all belong to circuits it initiated (the only place that
  creates one is \<open>perform_http_request\<close>, with the id of such a circuit), the count that
  the guard compares with 5 is zero for every exit socket.
\<close>

lemma outstanding_http_requests_exit_socket:
  assumes own: "\<And>k c. fmlookup (request_cache self) k = Some (HTTPRequestCache c) \<Longrightarrow>
                   c |\<in>| fmdom (circuits self)"
    and apart: "fmdom (circuits self) |\<inter>| fmdom (exit_sockets self) = {||}"
    and exit: "cid |\<in>| fmdom (exit_sockets self)"
  shows "outstanding_http_requests self cid = 0"
  unfolding outstanding_http_requests_def
proof (rule dict_count_none)
  fix k v
  assume l: "fmlookup (request_cache self) k = Some v"
  show "\<not> (case v of HTTPRequestCache c \<Rightarrow> c = cid | OtherCache \<Rightarrow> False)"
  proof (cases v)
    case (HTTPRequestCache c)
    with own l have "c |\<in>| fmdom (circuits self)" by simp
    with apart exit have "c \<noteq> cid" by auto
    with HTTPRequestCache show ?thesis by simp
  next
    case OtherCache
    then show ?thesis by simp
  qed
qed

text \<open>
  So however many requests arrive on an exit socket whose count is within the guard,
  all of them are in flight together.
\<close>

lemma http_requests_in_flight_fst:
  "fst (http_requests_in_flight self (cid # cids) c) =
     (if fst (on_http_request_start self cid) \<and> cid = c then 1 else 0)
     + fst (http_requests_in_flight (snd (on_http_request_start self cid)) cids c)"
  by (simp split: prod.splits)

lemma http_requests_in_flight_snd:
  "snd (http_requests_in_flight self (cid # cids) c) =
     snd (http_requests_in_flight (snd (on_http_request_start self cid)) cids c)"
  by (simp split: prod.splits)

lemma http_requests_in_flight_keeps:
  "request_cache (snd (http_requests_in_flight self cids c)) = request_cache self
   \<and> exit_sockets (snd (http_requests_in_flight self cids c)) = exit_sockets self"
proof (induction cids arbitrary: self)
  case Nil
  show ?case by simp
next
  case (Cons cid cids)
  from Cons [of "snd (on_http_request_start self cid)"] on_http_request_start_keeps [of self cid]
  show ?case by (simp only: http_requests_in_flight_snd)
qed

lemma http_requests_all_in_flight:
  assumes "c |\<in>| fmdom (exit_sockets self)" and "outstanding_http_requests self c \<le> 5"
  shows "fst (http_requests_in_flight self (replicate n c) c) = n"
  using assms
proof (induction n arbitrary: self)
  case 0
  show ?case by simp
next
  case (Suc n)
  have adm: "fst (on_http_request_start self c)"
    using on_http_request_start_threshold [of self c] Suc.prems by simp
  have "c |\<in>| fmdom (exit_sockets (snd (on_http_request_start self c)))"
    "outstanding_http_requests (snd (on_http_request_start self c)) c \<le> 5"
    using on_http_request_start_keeps [of self c] on_http_request_start_keeps_count [of self c c]
      Suc.prems by simp_all
  from Suc.IH [OF this] adm show ?case
    by (simp add: http_requests_in_flight_fst del: http_requests_in_flight.simps)
qed

text \<open>
  C5 fails on the code. On an exit node with an exit socket for circuit 1 and no
  \<open>HTTPRequestCache\<close> entry, six requests arrive on circuit 1 and none has finished: all
  six are in flight, the count the guard compares with 5 is still zero, and a seventh
  request passes the guard and is served (its three cells are sent).
\<close>

theorem on_http_request_cap_not_enforced:
  "fmdom (circuits (exit_node_with [])) |\<inter>| fmdom (exit_sockets (exit_node_with [])) = {||}
   \<and> outstanding_http_requests (exit_node_with []) 1 = 0
   \<and> fst (http_requests_in_flight (exit_node_with []) (replicate 6 1) 1) = 6
   \<and> outstanding_http_requests
        (snd (http_requests_in_flight (exit_node_with []) (replicate 6 1) 1)) 1 = 0
   \<and> fst (on_http_request_start
            (snd (http_requests_in_flight (exit_node_with []) (replicate 6 1) 1)) 1)
   \<and> length (snd (on_http_request (\<lambda>t r. Fetched redirect_3000) (\<lambda>x. None :: unit option)
        (snd (http_requests_in_flight (exit_node_with []) (replicate 6 1) 1))
        (''10.0.0.1'', 8000) tracker_request 1)) = 3"
proof -
  define six where "six = snd (http_requests_in_flight (exit_node_with []) (replicate 6 1) 1)"
  have apart: "fmdom (circuits (exit_node_with [])) |\<inter>| fmdom (exit_sockets (exit_node_with [])) = {||}"
    by (simp add: exit_node_with_def new_community_def)
  have n6: "fst (http_requests_in_flight (exit_node_with []) (replicate 6 1) 1) = 6"
    by (rule http_requests_all_in_flight)
       (simp_all add: exit_node_with_socket exit_node_with_no_requests)
  have keep: "request_cache six = request_cache (exit_node_with [])"
    "exit_sockets six = exit_sockets (exit_node_with [])"
    unfolding six_def using http_requests_in_flight_keeps [of "exit_node_with []" "replicate 6 1" 1]
    by blast+
  have sock: "1 |\<in>| fmdom (exit_sockets six)"
    by (simp only: keep exit_node_with_socket)
  have zero: "outstanding_http_requests six 1 = 0"
    using exit_node_with_no_requests
    by (simp only: outstanding_http_requests_def keep)
  have adm: "fst (on_http_request_start six 1)"
    using sock zero by (simp add: on_http_request_start_threshold)
  have "on_http_request (\<lambda>t r. Fetched redirect_3000) (\<lambda>x. None :: unit option) six
          (''10.0.0.1'', 8000) tracker_request 1 =
        (log_msg Debug_opening_tcp_connection (log_msg Debug_got_http_request six),
         response_cells (''10.0.0.1'', 8000) 1 (req_identifier tracker_request) redirect_3000)"
    by (rule on_http_request_forwarded) (simp_all add: sock zero redirect_3000_startswith)
  moreover have "length (response_cells (''10.0.0.1'', 8000) 1 (req_identifier tracker_request)
      redirect_3000) = 3"
    by (simp add: response_cells_def num_cells_3000 redirect_3000_length)
  ultimately have served: "length (snd (on_http_request (\<lambda>t r. Fetched redirect_3000)
        (\<lambda>x. None :: unit option) six (''10.0.0.1'', 8000) tracker_request 1)) = 3"
    by simp
  from apart n6 zero adm served exit_node_with_no_requests show ?thesis
    unfolding six_def by blast
qed

subsection \<open>Redirects and bencoded bodies\<close>

text \<open>
  What \<open>partition\<close> returns: when the separator occurs, the first occurrence splits the
  string; when it does not, the third component is empty.
\<close>

lemma bytes_find_Some:
  "bytes_find sep x = Some i \<Longrightarrow>
   i \<le> length x \<and> startswith (drop i x) sep \<and> (\<forall>j<i. \<not> startswith (drop j x) sep)"
proof (induction x arbitrary: i)
  case Nil
  then show ?case by (simp add: startswith_def split: if_splits)
next
  case (Cons c cs)
  show ?case
  proof (cases "startswith (c # cs) sep")
    case True
    with Cons.prems show ?thesis by simp
  next
    case False
    with Cons.prems obtain k where k: "bytes_find sep cs = Some k" and i: "i = Suc k"
      by auto
    from Cons.IH [OF k] have ih: "k \<le> length cs" "startswith (drop k cs) sep"
      "\<forall>j<k. \<not> startswith (drop j cs) sep" by auto
    have "\<not> startswith (drop j (c # cs)) sep" if "j < Suc k" for j
    proof (cases j)
      case 0
      with False show ?thesis by simp
    next
      case (Suc j')
      with that ih(3) show ?thesis by simp
    qed
    with ih i show ?thesis by simp
  qed
qed

lemma bytes_find_None:
  "bytes_find sep x = None \<Longrightarrow> j \<le> length x \<Longrightarrow> \<not> startswith (drop j x) sep"
proof (induction x arbitrary: j)
  case Nil
  then show ?case by (simp add: startswith_def split: if_splits)
next
  case (Cons c cs)
  from Cons.prems(1) have no: "\<not> startswith (c # cs) sep" and rest: "bytes_find sep cs = None"
    by (auto split: if_splits)
  show ?case
  proof (cases j)
    case 0
    with no show ?thesis by simp
  next
    case (Suc j')
    with Cons.prems(2) Cons.IH [OF rest, of j'] show ?thesis by simp
  qed
qed

lemma startswith_append_take: "startswith y sep \<Longrightarrow> y = sep @ drop (length sep) y"
  by (metis append_take_drop_id startswith_def)

lemma bytes_partition_found:
  assumes "bytes_find sep x = Some i"
  shows "bytes_partition x sep = (take i x, sep, drop (i + length sep) x)"
    and "x = take i x @ sep @ drop (i + length sep) x"
proof -
  show "bytes_partition x sep = (take i x, sep, drop (i + length sep) x)"
    using assms by (simp add: bytes_partition_def)
  from bytes_find_Some [OF assms] have "startswith (drop i x) sep" by simp
  then have "drop i x = sep @ drop (length sep) (drop i x)"
    by (rule startswith_append_take)
  then have "drop i x = sep @ drop (i + length sep) x"
    by (simp add: add.commute)
  then show "x = take i x @ sep @ drop (i + length sep) x"
    by (metis append_take_drop_id)
qed

lemma bytes_partition_example:
  "bytes_partition (''HTTP/1.1 200 OK'' @ CRLF_CRLF @ ''d8:intervali1800ee'' @ CRLF_CRLF @ ''x'') CRLF_CRLF
     = (''HTTP/1.1 200 OK'', CRLF_CRLF, ''d8:intervali1800ee'' @ CRLF_CRLF @ ''x'')"
  by (simp add: bytes_partition_def CRLF_CRLF_def startswith_def)

lemma bytes_partition_missing: "bytes_partition ''HTTP/1.1 200 OK'' CRLF_CRLF = (''HTTP/1.1 200 OK'', [], [])"
  by (simp add: bytes_partition_def CRLF_CRLF_def startswith_def)

lemma response_cells_reassembled:
  "concat (map (\<lambda>c. rsp_response (snd c)) (response_cells a cid ident response)) = response"
  using response_cells_concat [of a cid ident response] by (simp add: comp_def)

text \<open>
  C6. At the exit node, a fetched response that starts with \<open>HTTP/1.1 307\<close> is forwarded
  as it is: the fragments sent make up the response. For any other response the body, the
  bytes after the first blank line (\<open>response.partition(CRLF CRLF)[2]\<close>), has to be
  bencoded: if it is not, no cell is sent and the handler returns after logging the
  warning; if it is, the response is forwarded.
\<close>

theorem on_http_request_allow_list:
  assumes "cid |\<in>| fmdom (exit_sockets self)"
    and "outstanding_http_requests self cid \<le> 5"
    and "fetch (req_target payload) (req_request payload) = Fetched response"
    and "result = on_http_request fetch bdecode self source_address payload cid"
    and "body = snd (snd (bytes_partition response CRLF_CRLF))"
  shows "(startswith response ''HTTP/1.1 307'' \<longrightarrow>
            snd result = response_cells source_address cid (req_identifier payload) response
          \<and> concat (map (\<lambda>c. rsp_response (snd c)) (snd result)) = response)
       \<and> (\<not> startswith response ''HTTP/1.1 307'' \<and> \<not> is_bencoded bdecode body \<longrightarrow>
            snd result = []
          \<and> logger (fst result) =
              logger self @ [Debug_got_http_request, Debug_opening_tcp_connection,
                             Warning_http_request_not_allowed])
       \<and> (\<not> startswith response ''HTTP/1.1 307'' \<and> is_bencoded bdecode body \<longrightarrow>
            concat (map (\<lambda>c. rsp_response (snd c)) (snd result)) = response)"
proof -
  have cat: "concat (map (\<lambda>c. rsp_response (snd c))
               (response_cells source_address cid (req_identifier payload) response)) = response"
    by (rule response_cells_reassembled)
  have fwd: "startswith response ''HTTP/1.1 307'' \<or> is_bencoded bdecode body \<Longrightarrow>
             snd result = response_cells source_address cid (req_identifier payload) response"
    using assms by (simp add: on_http_request_forwarded)
  have refuse: "\<not> startswith response ''HTTP/1.1 307'' \<Longrightarrow> \<not> is_bencoded bdecode body \<Longrightarrow>
             result = (log_msg Warning_http_request_not_allowed
                         (log_msg Debug_opening_tcp_connection (log_msg Debug_got_http_request self)), [])"
    using assms by (simp add: on_http_request_def Let_def)
  from cat fwd refuse show ?thesis
    by (auto simp: log_msg_def)
qed

lemma plain_page_body: "snd (snd (bytes_partition plain_page CRLF_CRLF)) = ''<html>hello</html>''"
  by (simp add: plain_page_def bytes_partition_def CRLF_CRLF_def startswith_def)

lemma plain_page_not_redirect: "\<not> startswith plain_page ''HTTP/1.1 307''"
  by (simp add: plain_page_def startswith_def)

theorem on_http_request_allow_list_witness:
  "1 |\<in>| fmdom (exit_sockets (exit_node_with []))
   \<and> outstanding_http_requests (exit_node_with []) 1 \<le> 5
   \<and> startswith redirect_3000 ''HTTP/1.1 307''
   \<and> concat (map (\<lambda>c. rsp_response (snd c))
        (snd (on_http_request (\<lambda>t r. Fetched redirect_3000) bdecode_dictionaries
                (exit_node_with []) (''10.0.0.1'', 8000) tracker_request 1))) = redirect_3000
   \<and> \<not> startswith plain_page ''HTTP/1.1 307''
   \<and> \<not> is_bencoded bdecode_dictionaries (snd (snd (bytes_partition plain_page CRLF_CRLF)))
   \<and> snd (on_http_request (\<lambda>t r. Fetched plain_page) bdecode_dictionaries
                (exit_node_with []) (''10.0.0.1'', 8000) tracker_request 1) = []
   \<and> logger (fst (on_http_request (\<lambda>t r. Fetched plain_page) bdecode_dictionaries
                (exit_node_with []) (''10.0.0.1'', 8000) tracker_request 1)) =
       [Debug_got_http_request, Debug_opening_tcp_connection, Warning_http_request_not_allowed]"
proof -
  have h2: "outstanding_http_requests (exit_node_with []) 1 \<le> 5"
    by (simp add: exit_node_with_no_requests)
  have nb: "\<not> is_bencoded bdecode_dictionaries (snd (snd (bytes_partition plain_page CRLF_CRLF)))"
    by (simp add: plain_page_body is_bencoded_def bdecode_dictionaries_def)
  have lg: "logger (exit_node_with []) = []"
    by (simp add: exit_node_with_def new_community_def)
  show ?thesis
    using on_http_request_allow_list [OF exit_node_with_socket h2 _ refl refl,
        of "\<lambda>t r. Fetched redirect_3000" tracker_request redirect_3000 bdecode_dictionaries "(''10.0.0.1'', 8000)"]
      on_http_request_allow_list [OF exit_node_with_socket h2 _ refl refl,
        of "\<lambda>t r. Fetched plain_page" tracker_request plain_page bdecode_dictionaries "(''10.0.0.1'', 8000)"]
    by (simp add: exit_node_with_socket h2 redirect_3000_startswith plain_page_not_redirect nb lg
        response_cells_reassembled)
qed

section \<open>The exit-node cache file: properties\<close>

text \<open>
  C9 fails for read errors. When the cache file exists but cannot be opened or read,
  \<open>restore_exitnodes_from_disk\<close> raises \<open>OSError\<close>: only the debug line has been logged,
  no warning, and nothing is sent.
\<close>

theorem restore_exitnodes_from_disk_read_error:
  "restore_exitnodes_from_disk walkable Unreadable self =
     (Some OSError, log_msg Debug_loading_exit_nodes self, [])"
  by (simp add: restore_exitnodes_from_disk_def)

text \<open>
  The other two cases of C9 hold: an absent file is logged as a warning, and a failing
  write is logged as a warning; neither raises.
\<close>

lemma restore_exitnodes_from_disk_absent:
  "restore_exitnodes_from_disk walkable Absent self =
     (None, log_msg Warning_cache_file_does_not_exist self, [])"
  by (simp add: restore_exitnodes_from_disk_def)

lemma cache_exitnodes_to_disk_never_raises:
  "fst (cache_exitnodes_to_disk snapshot exit_candidates write_fails exitnode_cache self) = None"
  by (simp add: cache_exitnodes_to_disk_def Let_def)

lemma cache_exitnodes_to_disk_write_error:
  "cache_exitnodes_to_disk snapshot exit_candidates True exitnode_cache self =
     (None, log_msg Warning_os_error (log_msg Info_writing_exit_nodes self), exitnode_cache)"
  by (simp add: cache_exitnodes_to_disk_def Let_def)

section \<open>Incoming EVA transfers: properties\<close>

lemma consecutive_blocks_takeWhile:
  "consecutive_blocks bs = map the (takeWhile (\<lambda>b. b \<noteq> None) bs)"
  by (induction bs rule: consecutive_blocks.induct) simp_all

text \<open>
  C8, in general. For an incoming transfer with a window, \<open>make_acknowledgement\<close> appends
  the blocks before the window's first empty slot to \<open>data_list\<close>, leaves a new window that
  starts at the number of blocks in \<open>data_list\<close>, with \<open>processed = 0\<close> and
  \<open>protocol.window_size\<close> empty slots, and returns an acknowledgement with this start as
  its number and \<open>protocol.window_size\<close> as its window size. The old window's start, its
  number of slots and its \<open>processed\<close> count play no part.
\<close>

theorem make_acknowledgement_window:
  assumes "window self = Some w"
    and "consumed = map the (takeWhile (\<lambda>b. b \<noteq> None) (blocks w))"
    and "make_acknowledgement self = (ack, self')"
  shows "data_list self' = data_list self @ consumed
    \<and> window self' =
        Some \<lparr>window_start = length (data_list self) + length consumed, processed = 0,
              blocks = replicate (protocol_window_size self) None\<rparr>
    \<and> ack = \<lparr>ack_number = length (data_list self) + length consumed,
              ack_window_size = protocol_window_size self, ack_nonce = transfer_nonce self\<rparr>
    \<and> protocol_window_size self' = protocol_window_size self
    \<and> transfer_nonce self' = transfer_nonce self"
  using assms
  by (auto simp: make_acknowledgement_def Let_def TransferWindow_def consecutive_blocks_takeWhile)

text \<open>
  When the old window starts where \<open>data_list\<close> ends, as every window opened by
  \<open>make_acknowledgement\<close> does, the start advances by the number of consumed blocks, and
  the new window again starts where \<open>data_list\<close> ends.
\<close>

lemma make_acknowledgement_advances:
  assumes "window self = Some w" and "window_start w = length (data_list self)"
    and "make_acknowledgement self = (ack, self')"
  shows "map_option window_start (window self') =
           Some (window_start w + length (takeWhile (\<lambda>b. b \<noteq> None) (blocks w)))
    \<and> map_option window_start (window self') = Some (length (data_list self'))"
  using make_acknowledgement_window [OF assms(1) refl assms(3)] assms(2)
  by simp

text \<open>
  C8, on the input of the claim: the fixture of the test (nothing flushed yet) with the
  window \<open>TransferWindow(start=10, size=7)\<close> holding the blocks \<open>d, a, t, a\<close> and three
  empty slots. The acknowledgement has \<open>number = 4\<close> and \<open>window_size = protocol.window_size\<close>,
  the four blocks are appended to \<open>data_list\<close>, and the new window has \<open>start = 4\<close>,
  \<open>processed = 0\<close> and \<open>protocol.window_size\<close> empty slots, for every window size of the
  protocol.
\<close>

theorem make_acknowledgement_next_window:
  "\<forall>protocol_size.
     window ((incoming_transfer_fixture protocol_size)
        \<lparr>window := Some ((TransferWindow 10 7)
            \<lparr>blocks := [Some ''d'', Some ''a'', Some ''t'', Some ''a'', None, None, None]\<rparr>)\<rparr>)
     = Some ((TransferWindow 10 7)
            \<lparr>blocks := [Some ''d'', Some ''a'', Some ''t'', Some ''a'', None, None, None]\<rparr>)
   \<and> make_acknowledgement
       ((incoming_transfer_fixture protocol_size)
          \<lparr>window := Some ((TransferWindow 10 7)
              \<lparr>blocks := [Some ''d'', Some ''a'', Some ''t'', Some ''a'', None, None, None]\<rparr>)\<rparr>)
     = (\<lparr>ack_number = 4, ack_window_size = protocol_size, ack_nonce = 0\<rparr>,
        \<lparr>window = Some \<lparr>window_start = 4, processed = 0, blocks = replicate protocol_size None\<rparr>,
         data_list = [''d'', ''a'', ''t'', ''a''],
         protocol_window_size = protocol_size, transfer_nonce = 0\<rparr>)"
proof
  fix protocol_size
  let ?w = "(TransferWindow 10 7)
            \<lparr>blocks := [Some ''d'', Some ''a'', Some ''t'', Some ''a'', None, None, None]\<rparr>"
  let ?t = "(incoming_transfer_fixture protocol_size)\<lparr>window := Some ?w\<rparr>"
  have w: "window ?t = Some ?w"
    by simp
  obtain ack t' where r: "make_acknowledgement ?t = (ack, t')"
    by (cases "make_acknowledgement ?t") auto
  from make_acknowledgement_window [OF w refl r]
  have "ack = \<lparr>ack_number = 4, ack_window_size = protocol_size, ack_nonce = 0\<rparr>"
    and "data_list t' = [''d'', ''a'', ''t'', ''a'']"
    and "window t' = Some \<lparr>window_start = 4, processed = 0, blocks = replicate protocol_size None\<rparr>"
    and "protocol_window_size t' = protocol_size" and "transfer_nonce t' = 0"
    by (simp_all add: incoming_transfer_fixture_def TransferWindow_def)
  then have "(ack, t') = (\<lparr>ack_number = 4, ack_window_size = protocol_size, ack_nonce = 0\<rparr>,
        \<lparr>window = Some \<lparr>window_start = 4, processed = 0, blocks = replicate protocol_size None\<rparr>,
         data_list = [''d'', ''a'', ''t'', ''a''],
         protocol_window_size = protocol_size, transfer_nonce = 0\<rparr>)"
    by (cases t') simp
  with r w show "window ?t = Some ?w \<and> make_acknowledgement ?t =
      (\<lparr>ack_number = 4, ack_window_size = protocol_size, ack_nonce = 0\<rparr>,
        \<lparr>window = Some \<lparr>window_start = 4, processed = 0, blocks = replicate protocol_size None\<rparr>,
         data_list = [''d'', ''a'', ''t'', ''a''],
         protocol_window_size = protocol_size, transfer_nonce = 0\<rparr>)"
    by simp
qed

text \<open>With blocks already flushed, the same window gives a higher number.\<close>

lemma make_acknowledgement_after_first_window:
  "fst (make_acknowledgement
     ((incoming_transfer_fixture 16)
        \<lparr>data_list := [''x''],
         window := Some ((TransferWindow 1 7)
            \<lparr>blocks := [Some ''d'', Some ''a'', Some ''t'', Some ''a'', None, None, None]\<rparr>)\<rparr>))
   = \<lparr>ack_number = 5, ack_window_size = 16, ack_nonce = 0\<rparr>"
  by (simp add: make_acknowledgement_def incoming_transfer_fixture_def TransferWindow_def)

text \<open>
  The sibling test \<open>test_make_acknowledgement_no_window\<close>: with no window yet, the
  acknowledgement has number 0 and a window is opened.
\<close>

lemma make_acknowledgement_no_window:
  "fst (make_acknowledgement (incoming_transfer_fixture protocol_size)) =
     \<lparr>ack_number = 0, ack_window_size = protocol_size, ack_nonce = 0\<rparr>
   \<and> window (snd (make_acknowledgement (incoming_transfer_fixture protocol_size))) =
       Some (TransferWindow 0 protocol_size)"
  by (simp add: make_acknowledgement_def incoming_transfer_fixture_def TransferWindow_def)

section \<open>The download monitor: properties\<close>

subsection \<open>Joining hidden swarms\<close>

lemma in_active_iff:
  "in_active st = (st = Some DOWNLOADING \<or> st = Some SEEDING \<or> st = Some METADATA)"
  by (auto simp: in_active_def active_def split: option.splits)

lemma filter_join_replicate [simp]:
  "filter (is_join_swarm ih) (replicate n (Create_introduction_point k)) = []"
  by (induction n) simp_all

lemma swarm_body_download_states:
  "download_states (fst (snd (swarm_body counter new_states hops self k))) = download_states self"
  by (simp add: swarm_body_def Let_def split: option.splits sum.splits)

lemma swarm_body_joins:
  assumes "k |\<in>| fmdom new_states \<longrightarrow> k |\<in>| fmdom hops"
  shows "fst (swarm_body counter new_states hops self k) = None
    \<and> filter (is_join_swarm ih) (snd (snd (swarm_body counter new_states hops self k))) =
        (if k = ih \<and> should_join_swarm (fmlookup (download_states self) ih) (fmlookup new_states ih)
         then [Join_swarm ih (the (fmlookup hops ih)) (fmlookup new_states ih = Some SEEDING)]
         else [])"
proof (cases "fmlookup new_states k")
  case None
  then show ?thesis
    by (auto simp: swarm_body_def Let_def in_active_iff should_join_swarm_def)
next
  case (Some st)
  then have "k |\<in>| fmdom new_states" by (simp add: fmdomI)
  with assms obtain h where h: "fmlookup hops k = Some h"
    by (auto simp: fmlookup_dom_iff)
  show ?thesis
  proof (cases "k = ih")
    case True
    with Some h show ?thesis
      by (simp add: swarm_body_def Let_def in_active_iff should_join_swarm_def)
  next
    case False
    with Some h show ?thesis
      by (simp add: swarm_body_def Let_def in_active_iff should_join_swarm_def)
  qed
qed

lemma swarm_loop_joins:
  assumes "\<forall>k \<in> set ks. k |\<in>| fmdom new_states \<longrightarrow> k |\<in>| fmdom hops"
    and "distinct ks"
  shows "fst (swarm_loop counter new_states hops self ks) = None
    \<and> download_states (fst (snd (swarm_loop counter new_states hops self ks))) = download_states self
    \<and> filter (is_join_swarm ih) (snd (snd (swarm_loop counter new_states hops self ks))) =
        (if ih \<in> set ks \<and> should_join_swarm (fmlookup (download_states self) ih) (fmlookup new_states ih)
         then [Join_swarm ih (the (fmlookup hops ih)) (fmlookup new_states ih = Some SEEDING)]
         else [])"
  using assms
proof (induction ks arbitrary: self)
  case Nil
  show ?case by simp
next
  case (Cons k ks)
  obtain self1 calls1 where b: "swarm_body counter new_states hops self k = (None, self1, calls1)"
    using swarm_body_joins [of k new_states hops counter self ih] Cons.prems(1)
    by (cases "swarm_body counter new_states hops self k") auto
  have ds1: "download_states self1 = download_states self"
    using swarm_body_download_states [of counter new_states hops self k] b by simp
  have j1: "filter (is_join_swarm ih) calls1 =
        (if k = ih \<and> should_join_swarm (fmlookup (download_states self) ih) (fmlookup new_states ih)
         then [Join_swarm ih (the (fmlookup hops ih)) (fmlookup new_states ih = Some SEEDING)]
         else [])"
    using swarm_body_joins [of k new_states hops counter self ih] Cons.prems(1) b by simp
  from Cons.prems have rest: "\<forall>k \<in> set ks. k |\<in>| fmdom new_states \<longrightarrow> k |\<in>| fmdom hops"
    and dist: "distinct ks" and notin: "k \<notin> set ks" by auto
  note ih = Cons.IH [OF rest dist, of self1]
  obtain r self2 calls2 where l: "swarm_loop counter new_states hops self1 ks = (r, self2, calls2)"
    by (cases "swarm_loop counter new_states hops self1 ks") auto
  have whole: "swarm_loop counter new_states hops self (k # ks) = (r, self2, calls1 @ calls2)"
    using b l by simp
  have r: "r = None"
    using ih l by simp
  have ds2: "download_states self2 = download_states self"
    using ih l ds1 by simp
  have j2: "filter (is_join_swarm ih) calls2 =
        (if ih \<in> set ks \<and> should_join_swarm (fmlookup (download_states self) ih) (fmlookup new_states ih)
         then [Join_swarm ih (the (fmlookup hops ih)) (fmlookup new_states ih = Some SEEDING)]
         else [])"
    using ih l ds1 by simp
  show ?case
  proof (cases "k = ih")
    case True
    with notin have "ih \<notin> set ks" by simp
    with True j1 j2 r ds2 show ?thesis
      unfolding whole by simp
  next
    case False
    with j1 j2 r ds2 show ?thesis
      unfolding whole by simp
  qed
qed

subsection \<open>The throttle of forced announces\<close>

lemma announces_append: "announces (cs @ ds) = announces cs @ announces ds"
  by (induction cs rule: announces.induct) simp_all

lemma announces_mem: "(ih, n) \<in> set (announces cs) \<longleftrightarrow> Force_dht_announce ih n \<in> set cs"
  by (induction cs rule: announces.induct) auto

lemma throttle_inv_empty: "throttle_inv clock recorded t []"
  by (simp add: throttle_inv_def)

lemma throttle_inv_tick:
  "throttle_inv clock recorded t as \<Longrightarrow> t \<le> t' \<Longrightarrow> throttle_inv clock recorded t' as"
  unfolding throttle_inv_def by (meson less_le_trans)

lemma throttle_inv_announce:
  assumes mono: "\<forall>i j. i \<le> j \<longrightarrow> clock i \<le> clock j"
    and inv: "throttle_inv clock recorded t as"
    and check: "dict_get recorded ih 0 + 60 \<le> clock t"
  shows "throttle_inv clock (fmupd ih (clock (t + 1)) recorded) (t + 2) (as @ [(ih, t + 1)])"
proof -
  from inv have old: "\<And>k m. (k, m) \<in> set as \<Longrightarrow>
        m < t \<and> (\<exists>v. fmlookup recorded k = Some v \<and> clock m \<le> v)"
    and pairs: "\<And>k m n. (k, m) \<in> set as \<Longrightarrow> (k, n) \<in> set as \<Longrightarrow> m < n \<Longrightarrow>
        clock m + 60 \<le> clock (n - 1)"
    and sorted: "sorted_wrt (<) (map snd as)"
    unfolding throttle_inv_def by blast+
  have p1: "m < t + 2 \<and> (\<exists>v. fmlookup (fmupd ih (clock (t + 1)) recorded) k = Some v \<and> clock m \<le> v)"
    if "(k, m) \<in> set (as @ [(ih, t + 1)])" for k m
  proof (cases "(k, m) \<in> set as")
    case True
    from old [OF True] obtain v where m: "m < t" and v: "fmlookup recorded k = Some v" "clock m \<le> v"
      by blast
    from m mono have "clock m \<le> clock (t + 1)" by simp
    with m v show ?thesis by simp
  next
    case False
    with that have "k = ih" "m = t + 1" by auto
    then show ?thesis by simp
  qed
  have p2: "clock m + 60 \<le> clock (n - 1)"
    if km: "(k, m) \<in> set (as @ [(ih, t + 1)])" and kn: "(k, n) \<in> set (as @ [(ih, t + 1)])"
      and mn: "m < n" for k m n
  proof (cases "(k, n) \<in> set as")
    case True
    then have n: "n < t" using old by blast
    show ?thesis
    proof (cases "(k, m) \<in> set as")
      case True
      then show ?thesis using \<open>(k, n) \<in> set as\<close> mn by (rule pairs)
    next
      case False
      with km have "m = t + 1" by auto
      with n mn show ?thesis by simp
    qed
  next
    case False
    with kn have n: "k = ih" "n = t + 1" by auto
    with km mn have "(ih, m) \<in> set as" by auto
    from old [OF this] obtain v where v: "fmlookup recorded ih = Some v" "clock m \<le> v"
      by blast
    then have "dict_get recorded ih 0 = v" by (simp add: dict_get_def)
    with check v n show ?thesis by simp
  qed
  have p3: "sorted_wrt (<) (map snd (as @ [(ih, t + 1)]))"
    using sorted old by (fastforce simp: sorted_wrt_append)
  from p1 p2 p3 show ?thesis
    unfolding throttle_inv_def by blast
qed

lemma monitor_body_effect:
  "(announces (loop_calls (monitor_body clock sha1 fc hs ds acc)) = announces (loop_calls acc)
      \<and> last_forced_announce (loop_self (monitor_body clock sha1 fc hs ds acc)) =
          last_forced_announce (loop_self acc)
      \<and> loop_ticks acc \<le> loop_ticks (monitor_body clock sha1 fc hs ds acc))
   \<or> (\<exists>ih. announces (loop_calls (monitor_body clock sha1 fc hs ds acc)) =
              announces (loop_calls acc) @ [(ih, loop_ticks acc + 1)]
      \<and> last_forced_announce (loop_self (monitor_body clock sha1 fc hs ds acc)) =
          fmupd ih (clock (loop_ticks acc + 1)) (last_forced_announce (loop_self acc))
      \<and> loop_ticks (monitor_body clock sha1 fc hs ds acc) = loop_ticks acc + 2
      \<and> dict_get (last_forced_announce (loop_self acc)) ih 0 + 60 \<le> clock (loop_ticks acc))"
  by (simp add: monitor_body_def Let_def announces_append)

lemma monitor_body_inv:
  assumes mono: "\<forall>i j. i \<le> j \<longrightarrow> clock i \<le> clock j"
    and inv: "throttle_inv clock (last_forced_announce (loop_self acc)) (loop_ticks acc)
                (prev @ announces (loop_calls acc))"
  shows "throttle_inv clock
           (last_forced_announce (loop_self (monitor_body clock sha1 fc hs ds acc)))
           (loop_ticks (monitor_body clock sha1 fc hs ds acc))
           (prev @ announces (loop_calls (monitor_body clock sha1 fc hs ds acc)))"
  using monitor_body_effect [of clock sha1 fc hs ds acc]
proof (elim disjE exE conjE)
  assume "announces (loop_calls (monitor_body clock sha1 fc hs ds acc)) = announces (loop_calls acc)"
    "last_forced_announce (loop_self (monitor_body clock sha1 fc hs ds acc)) =
          last_forced_announce (loop_self acc)"
    "loop_ticks acc \<le> loop_ticks (monitor_body clock sha1 fc hs ds acc)"
  with inv show ?thesis
    by (simp add: throttle_inv_tick)
next
  fix ih
  assume a: "announces (loop_calls (monitor_body clock sha1 fc hs ds acc)) =
              announces (loop_calls acc) @ [(ih, loop_ticks acc + 1)]"
    "last_forced_announce (loop_self (monitor_body clock sha1 fc hs ds acc)) =
          fmupd ih (clock (loop_ticks acc + 1)) (last_forced_announce (loop_self acc))"
    "loop_ticks (monitor_body clock sha1 fc hs ds acc) = loop_ticks acc + 2"
    and check: "dict_get (last_forced_announce (loop_self acc)) ih 0 + 60 \<le> clock (loop_ticks acc)"
  from throttle_inv_announce [OF mono inv check] a show ?thesis
    by simp
qed

lemma monitor_fold_inv:
  assumes mono: "\<forall>i j. i \<le> j \<longrightarrow> clock i \<le> clock j"
  shows "throttle_inv clock (last_forced_announce (loop_self acc)) (loop_ticks acc)
                (prev @ announces (loop_calls acc)) \<Longrightarrow>
         throttle_inv clock
           (last_forced_announce (loop_self (fold (monitor_body clock sha1 fc hs) dslist acc)))
           (loop_ticks (fold (monitor_body clock sha1 fc hs) dslist acc))
           (prev @ announces (loop_calls (fold (monitor_body clock sha1 fc hs) dslist acc)))"
proof (induction dslist arbitrary: acc)
  case Nil
  then show ?case by simp
next
  case (Cons ds dslist)
  from monitor_body_inv [OF mono Cons.prems]
  show ?case by (simp add: Cons.IH)
qed

lemma announces_replicate_intro [simp]:
  "announces (replicate n (Create_introduction_point k)) = []"
  by (induction n) simp_all

lemma swarm_body_quiet:
  "announces (snd (snd (swarm_body counter new_states hops self k))) = []
   \<and> last_forced_announce (fst (snd (swarm_body counter new_states hops self k))) =
       last_forced_announce self"
  by (simp add: swarm_body_def Let_def announces_append split: option.splits sum.splits)

lemma swarm_loop_quiet:
  "announces (snd (snd (swarm_loop counter new_states hops self ks))) = []
   \<and> last_forced_announce (fst (snd (swarm_loop counter new_states hops self ks))) =
       last_forced_announce self"
proof (induction ks arbitrary: self)
  case Nil
  show ?case by simp
next
  case (Cons k ks)
  obtain e self1 calls1 where b: "swarm_body counter new_states hops self k = (e, self1, calls1)"
    by (cases "swarm_body counter new_states hops self k") auto
  with swarm_body_quiet [of counter new_states hops self k]
  have q1: "announces calls1 = []" "last_forced_announce self1 = last_forced_announce self"
    by simp_all
  obtain r self2 calls2 where l: "swarm_loop counter new_states hops self1 ks = (r, self2, calls2)"
    by (cases "swarm_loop counter new_states hops self1 ks") auto
  with Cons.IH [of self1]
  have q2: "announces calls2 = []" "last_forced_announce self2 = last_forced_announce self1"
    by simp_all
  from b l q1 q2 show ?case
    by (cases e) (simp_all add: announces_append)
qed

lemma monitor_downloads_inv:
  assumes mono: "\<forall>i j. i \<le> j \<longrightarrow> clock i \<le> clock j"
    and inv: "throttle_inv clock (last_forced_announce self) ticks0 prev"
    and run: "monitor_downloads clock sha1 fc hs self ticks0 dslist = (raised, self1, ticks1, calls1)"
  shows "throttle_inv clock (last_forced_announce self1) ticks1 (prev @ announces calls1)"
proof -
  define acc0 :: "('a, 'b) monitor_loop" where "acc0 =
     \<lparr>loop_new_states = fmempty, loop_hops = fmempty,
      loop_active_downloads_per_hop =
        (if default_hops self > 0 then fmupd (default_hops self) 0 fmempty else fmempty),
      loop_self = self, loop_ticks = ticks0, loop_calls = []\<rparr>"
  define acc where "acc = fold (monitor_body clock sha1 fc hs) dslist acc0"
  define self_a where "self_a = (loop_self acc)\<lparr>circuits_needed :=
                     fmmap (\<lambda>download_count.
                              min (max download_count (min_circuits self)) (max_circuits self))
                       (loop_active_downloads_per_hop acc)\<rparr>"
  have "throttle_inv clock (last_forced_announce (loop_self acc0)) (loop_ticks acc0)
          (prev @ announces (loop_calls acc0))"
    using inv by (simp add: acc0_def)
  from monitor_fold_inv [OF mono this]
  have loop: "throttle_inv clock (last_forced_announce (loop_self acc)) (loop_ticks acc)
          (prev @ announces (loop_calls acc))"
    by (simp add: acc_def)
  obtain e self2 swarm_calls where
    sw: "monitor_hidden_swarms self_a (loop_new_states acc) (loop_hops acc) = (e, self2, swarm_calls)"
    by (cases "monitor_hidden_swarms self_a (loop_new_states acc) (loop_hops acc)") auto
  have lfa_a: "last_forced_announce self_a = last_forced_announce (loop_self acc)"
    by (simp add: self_a_def)
  from swarm_loop_quiet [of "ip_counter self_a" "loop_new_states acc" "loop_hops acc" self_a
      "sorted_list_of_fset (fmdom (loop_new_states acc) |\<union>| fmdom (download_states self_a))"] sw
  have quiet: "announces swarm_calls = []"
    "last_forced_announce self2 = last_forced_announce (loop_self acc)"
    by (simp_all add: monitor_hidden_swarms_def lfa_a)
  have "ticks1 = loop_ticks acc \<and> calls1 = loop_calls acc @ swarm_calls
        \<and> last_forced_announce self1 = last_forced_announce self2"
    using run sw unfolding monitor_downloads_def Let_def acc_def [symmetric] acc0_def [symmetric]
      self_a_def [symmetric]
    by (cases e) auto
  with loop quiet show ?thesis
    by (simp add: announces_append)
qed

lemma poll_download_manager_inv:
  assumes mono: "\<forall>i j. i \<le> j \<longrightarrow> clock i \<le> clock j"
  shows "throttle_inv clock (last_forced_announce self) ticks0 prev \<Longrightarrow>
         poll_download_manager clock sha1 self ticks0 polls = (self', ticks', calls) \<Longrightarrow>
         throttle_inv clock (last_forced_announce self') ticks' (prev @ announces calls)"
proof (induction polls arbitrary: self ticks0 prev self' ticks' calls)
  case Nil
  then show ?case by simp
next
  case (Cons p polls)
  obtain raised self1 ticks1 calls1 where
    m: "monitor_downloads clock sha1 (poll_find_circuits p) (poll_has_session p) self ticks0
          (poll_dslist p) = (raised, self1, ticks1, calls1)"
    by (cases "monitor_downloads clock sha1 (poll_find_circuits p) (poll_has_session p) self ticks0
          (poll_dslist p)") auto
  define self1' where "self1' =
    (case raised of None \<Rightarrow> self1 | Some e \<Rightarrow> log_msg Error_polling_download_manager self1)"
  have lfa: "last_forced_announce self1' = last_forced_announce self1"
    by (simp add: self1'_def log_msg_def split: option.splits)
  obtain self2 ticks2 calls2 where
    r: "poll_download_manager clock sha1 self1' ticks1 polls = (self2, ticks2, calls2)"
    by (cases "poll_download_manager clock sha1 self1' ticks1 polls") auto
  from Cons.prems(2) m r have res: "self' = self2" "ticks' = ticks2" "calls = calls1 @ calls2"
    by (simp_all add: self1'_def)
  from monitor_downloads_inv [OF mono Cons.prems(1) m]
  have "throttle_inv clock (last_forced_announce self1') ticks1 (prev @ announces calls1)"
    by (simp add: lfa)
  from Cons.IH [OF this r] res show ?case
    by (simp add: announces_append)
qed

text \<open>
  C3. Let \<open>hops\<close> hold every key of \<open>new_states\<close>, as it does when \<open>monitor_downloads\<close>
  calls \<open>monitor_hidden_swarms\<close>. Then \<open>monitor_hidden_swarms\<close> returns normally and, for
  every infohash, calls \<open>join_swarm\<close> for it exactly once if the state changed, the new
  state is one of \<open>DOWNLOADING\<close>, \<open>SEEDING\<close>, \<open>METADATA\<close>, and the change is not from
  \<open>METADATA\<close> to \<open>DOWNLOADING\<close>; otherwise it does not call \<open>join_swarm\<close> for it. In
  particular, a change from \<open>METADATA\<close> to \<open>DOWNLOADING\<close> triggers no \<open>join_swarm\<close>.
\<close>

theorem monitor_hidden_swarms_joins:
  assumes "fmdom new_states |\<subseteq>| fmdom hops"
    and "old_state = fmlookup (download_states self) info_hash"
    and "new_state = fmlookup new_states info_hash"
    and "calls = snd (snd (monitor_hidden_swarms self new_states hops))"
  shows "fst (monitor_hidden_swarms self new_states hops) = None
    \<and> filter (is_join_swarm info_hash) calls =
        (if should_join_swarm old_state new_state
         then [Join_swarm info_hash (the (fmlookup hops info_hash)) (new_state = Some SEEDING)]
         else [])
    \<and> (old_state = Some METADATA \<and> new_state = Some DOWNLOADING \<longrightarrow>
          filter (is_join_swarm info_hash) calls = [])"
proof -
  define ks where "ks = sorted_list_of_fset (fmdom new_states |\<union>| fmdom (download_states self))"
  have cover: "\<forall>k \<in> set ks. k |\<in>| fmdom new_states \<longrightarrow> k |\<in>| fmdom hops"
    using assms(1) by auto
  have dist: "distinct ks"
    by (simp add: ks_def sorted_list_of_fset.rep_eq)
  have examined: "should_join_swarm old_state new_state \<Longrightarrow> info_hash \<in> set ks"
    unfolding ks_def assms(2,3) should_join_swarm_def
    by (auto simp: fmlookup_dom_iff)
  from swarm_loop_joins [OF cover dist, of "ip_counter self" self info_hash] examined
  have "fst (monitor_hidden_swarms self new_states hops) = None
    \<and> filter (is_join_swarm info_hash) calls =
        (if should_join_swarm old_state new_state
         then [Join_swarm info_hash (the (fmlookup hops info_hash)) (new_state = Some SEEDING)]
         else [])"
    unfolding monitor_hidden_swarms_def ks_def [symmetric] assms(2,3,4) by auto
  then show ?thesis
    by (simp add: should_join_swarm_def)
qed

text \<open>
  On the example, the monitor joins the swarm of the second download as a seeder,
  creates its introduction point and leaves the swarm of the third; the first download,
  which went from \<open>METADATA\<close> to \<open>DOWNLOADING\<close>, triggers nothing.
\<close>

lemma monitor_hidden_swarms_example:
  "monitor_hidden_swarms swarm_node swarm_new_states swarm_hops =
     (None, swarm_node\<lparr>logger := [Info_create_introducing_circuit ''bb'']\<rparr>,
      [Join_swarm ''bb'' 2 True, Create_introduction_point ''bb'', Leave_swarm ''cc''])"
  by code_simp

theorem monitor_hidden_swarms_joins_witness:
  "fmdom swarm_new_states |\<subseteq>| fmdom swarm_hops
   \<and> fmlookup (download_states swarm_node) ''aa'' = Some METADATA
   \<and> fmlookup swarm_new_states ''aa'' = Some DOWNLOADING
   \<and> filter (is_join_swarm ''aa'')
        (snd (snd (monitor_hidden_swarms swarm_node swarm_new_states swarm_hops))) = []
   \<and> filter (is_join_swarm ''bb'')
        (snd (snd (monitor_hidden_swarms swarm_node swarm_new_states swarm_hops))) =
       [Join_swarm ''bb'' 2 True]"
proof -
  have sub: "fmdom swarm_new_states |\<subseteq>| fmdom swarm_hops"
    by (simp add: swarm_new_states_def swarm_hops_def)
  show ?thesis
    using monitor_hidden_swarms_joins [OF sub refl refl refl, of swarm_node "''aa''"]
      monitor_hidden_swarms_joins [OF sub refl refl refl, of swarm_node "''bb''"]
    by (simp add: sub swarm_node_def swarm_new_states_def swarm_hops_def should_join_swarm_def
        new_community_def)
qed

text \<open>
  C7. Let the readings of the clock not decrease. Over any sequence of polls, from any
  community, take two forced announces for the same real infohash. The later one was
  made after more clock readings, and the reading recorded after the earlier one
  (\<open>last_forced_announce\<close>) is at least 60 seconds before the reading the later one was
  checked against. As the earlier call lies before the first of these readings and the
  later call after the second, the two calls are at least 60 seconds apart.
\<close>

theorem forced_announces_60s_apart:
  assumes "mono clock"
    and "as = announces (snd (snd (poll_download_manager clock sha1 self ticks0 polls)))"
    and "i < j" and "j < length as" and "fst (as ! i) = fst (as ! j)"
  shows "snd (as ! i) < snd (as ! j) \<and> clock (snd (as ! i)) + 60 \<le> clock (snd (as ! j) - 1)"
proof -
  have mono: "\<forall>i j. i \<le> j \<longrightarrow> clock i \<le> clock j"
    using assms(1) by (simp add: mono_def)
  obtain self' ticks' calls where
    run: "poll_download_manager clock sha1 self ticks0 polls = (self', ticks', calls)"
    by (cases "poll_download_manager clock sha1 self ticks0 polls") auto
  from poll_download_manager_inv [OF mono throttle_inv_empty run]
  have inv: "throttle_inv clock (last_forced_announce self') ticks' as"
    by (simp add: assms(2) run)
  then have sorted: "sorted_wrt (<) (map snd as)"
    and pairs: "\<And>ih m n. (ih, m) \<in> set as \<Longrightarrow> (ih, n) \<in> set as \<Longrightarrow> m < n \<Longrightarrow>
        clock m + 60 \<le> clock (n - 1)"
    unfolding throttle_inv_def by blast+
  from assms(3,4) have i: "i < length as" by simp
  from sorted assms(3,4) i have less: "snd (as ! i) < snd (as ! j)"
    by (simp add: sorted_wrt_iff_nth_less)
  have mi: "(fst (as ! j), snd (as ! i)) \<in> set as"
    using i assms(5) by (metis nth_mem prod.collapse)
  have mj: "(fst (as ! j), snd (as ! j)) \<in> set as"
    using assms(4) by simp
  from pairs [OF mi mj less] less show ?thesis
    by simp
qed

text \<open>
  On the example, with readings 40 seconds apart and three polls, the first poll
  announces (reading 2 is 80 seconds), the second does not (reading 4 is only 40 seconds
  after the recorded reading 3), the third does.
\<close>

lemma example_clock_mono: "mono example_clock"
  by (simp add: mono_def example_clock_def)

lemma example_run:
  "announces (snd (snd (poll_download_manager example_clock (\<lambda>x. x)
       (new_community 100 1 8 1 :: (unit, unit) community) 2 [example_poll, example_poll, example_poll])))
   = [(''ab'', 3), (''ab'', 6)]"
  by code_simp

theorem forced_announces_60s_apart_witness:
  "mono example_clock
   \<and> announces (snd (snd (poll_download_manager example_clock (\<lambda>x. x)
         (new_community 100 1 8 1 :: (unit, unit) community) 2
         [example_poll, example_poll, example_poll])))
       = [(''ab'', 3), (''ab'', 6)]
   \<and> (3 :: nat) < 6
   \<and> example_clock 3 + 60 \<le> example_clock 5"
  using forced_announces_60s_apart [OF example_clock_mono refl, of 0 1 "\<lambda>x. x"
      "new_community 100 1 8 1 :: (unit, unit) community" 2
      "[example_poll, example_poll, example_poll]"]
    example_run example_clock_mono
  by simp

end
